theory Spec2Isabelle
  imports Complex_Main
begin

section \<open>Client-side resilience utilities of the dispatch console\<close>

text \<open>
  A shallow embedding of \<^verbatim>\<open>src/utils/rateLimiter.ts\<close> (RateLimiter, withRateLimit,
  retryWithBackoff, CircuitBreaker), of the retry wrapper and error classifier of
  \<^verbatim>\<open>utils/errorHandler\<close>, of the message limiter as \<^verbatim>\<open>services/api.ts\<close> uses it, and of the
  Captcha component that \<^verbatim>\<open>pages/Login.tsx\<close> renders.

  Conventions. Times are integer milliseconds, as \<^verbatim>\<open>Date.now()\<close> returns them; every
  \<^verbatim>\<open>Date.now()\<close> read of the source is a separate argument of the model, in the order the
  source reads them. A \<^verbatim>\<open>throw\<close> is a value of a sum type (\<open>Inl\<close>). Mutable objects are
  passed in and returned updated.
\<close>

subsection \<open>JavaScript values, as far as the code inspects them\<close>

datatype js_error = TypeError | SyntaxError

text \<open>
  Values that reach a template literal or a truthiness test. Numbers are the integral
  ones; \<open>JObj\<close> is a plain object (no \<^verbatim>\<open>toString\<close> of its own), given by its
  properties; where a name is listed twice, the first listing is the property.
\<close>

datatype jsval =
    JUndefined
  | JNull
  | JBool bool
  | JNum int
  | JStr string
  | JObj "(string \<times> jsval) list"

definition digit_char :: "nat \<Rightarrow> char" where
  "digit_char d = char_of (48 + d)"

fun show_nat :: "nat \<Rightarrow> string" where
  "show_nat n = (if n < 10 then [digit_char n] else show_nat (n div 10) @ [digit_char (n mod 10)])"

declare show_nat.simps [simp del]

text \<open>\<^verbatim>\<open>String(n)\<close> for an integral number.\<close>

definition show_int :: "int \<Rightarrow> string" where
  "show_int i = (if i < 0 then CHR ''-'' # show_nat (nat (- i)) else show_nat (nat i))"

text \<open>JavaScript truthiness (\<^verbatim>\<open>x ? a : b\<close>, \<^verbatim>\<open>x || d\<close>).\<close>

fun js_truthy :: "jsval \<Rightarrow> bool" where
  "js_truthy JUndefined = False"
| "js_truthy JNull = False"
| "js_truthy (JBool b) = b"
| "js_truthy (JNum n) = (n \<noteq> 0)"
| "js_truthy (JStr s) = (s \<noteq> [])"
| "js_truthy (JObj _) = True"

text \<open>The string a template literal \<^verbatim>\<open>`${x}`\<close> inserts for \<open>x\<close>.\<close>

fun js_to_string :: "jsval \<Rightarrow> string" where
  "js_to_string JUndefined = ''undefined''"
| "js_to_string JNull = ''null''"
| "js_to_string (JBool b) = (if b then ''true'' else ''false'')"
| "js_to_string (JNum n) = show_int n"
| "js_to_string (JStr s) = s"
| "js_to_string (JObj _) = ''[object Object]''"

text \<open>
  Property read \<^verbatim>\<open>x.name\<close>: a TypeError on \<^verbatim>\<open>undefined\<close> and \<^verbatim>\<open>null\<close>, \<^verbatim>\<open>undefined\<close> for
  a missing property and for the own properties of primitives.
\<close>

fun js_get :: "jsval \<Rightarrow> string \<Rightarrow> js_error + jsval" where
  "js_get JUndefined name = Inl TypeError"
| "js_get JNull name = Inl TypeError"
| "js_get (JObj fields) name = Inr (case map_of fields name of None \<Rightarrow> JUndefined | Some v \<Rightarrow> v)"
| "js_get v name = Inr JUndefined"

text \<open>\<^verbatim>\<open>args[0]\<close>: \<^verbatim>\<open>undefined\<close> past the end of the array.\<close>

definition js_first :: "jsval list \<Rightarrow> jsval" where
  "js_first args = (case args of [] \<Rightarrow> JUndefined | a # _ \<Rightarrow> a)"

text \<open>\<^verbatim>\<open>localStorage\<close>: string keys to string values; \<^verbatim>\<open>getItem\<close> gives \<^verbatim>\<open>null\<close> (\<open>None\<close>)
  for a missing key.\<close>

type_synonym storage = "string \<rightharpoonup> string"

subsection \<open>RateLimiter\<close>

record RateLimitEntry =
  count :: int
  resetTime :: int

text \<open>
  \<open>keyGenerator\<close> is optional. A generator may read ambient state (\<^verbatim>\<open>localStorage\<close>), which is
  the \<open>'env\<close> argument, and may throw.
\<close>

record ('env, 'a) RateLimitConfig =
  maxRequests :: int
  windowMs :: int
  keyGenerator :: "('env \<Rightarrow> 'a list \<Rightarrow> js_error + string) option"

type_synonym limits = "string \<rightharpoonup> RateLimitEntry"

definition getKey :: "('env, 'a) RateLimitConfig \<Rightarrow> 'env \<Rightarrow> 'a list \<Rightarrow> js_error + string" where
  "getKey config env args =
     (case keyGenerator config of
        Some g \<Rightarrow> g env args
      | None \<Rightarrow> Inr ''default'')"

text \<open>The sweep: every entry whose \<open>resetTime\<close> has passed is deleted.\<close>

definition cleanup :: "int \<Rightarrow> limits \<Rightarrow> limits" where
  "cleanup now lims =
     (\<lambda>key. case lims key of
        None \<Rightarrow> None
      | Some entry \<Rightarrow> if now > resetTime entry then None else Some entry)"

text \<open>
  \<open>isAllowed\<close>. \<open>sweep\<close> is the clock read inside \<open>cleanup\<close>, \<open>now\<close> the read after the key
  is derived. A generator that throws does so after the sweep has run.
\<close>

definition isAllowed ::
  "('env, 'a) RateLimitConfig \<Rightarrow> 'env \<Rightarrow> 'a list \<Rightarrow> int \<Rightarrow> int \<Rightarrow> limits
     \<Rightarrow> (js_error + bool) \<times> limits" where
  "isAllowed config env args sweep now lims =
     (let lims1 = cleanup sweep lims in
      case getKey config env args of
        Inl e \<Rightarrow> (Inl e, lims1)
      | Inr key \<Rightarrow>
          (case lims1 key of
             None \<Rightarrow>
               (Inr True, lims1(key \<mapsto> \<lparr>count = 1, resetTime = now + windowMs config\<rparr>))
           | Some entry \<Rightarrow>
               if now > resetTime entry then
                 (Inr True, lims1(key \<mapsto> \<lparr>count = 1, resetTime = now + windowMs config\<rparr>))
               else if count entry \<ge> maxRequests config then (Inr False, lims1)
               else (Inr True, lims1(key \<mapsto> entry\<lparr>count := count entry + 1\<rparr>))))"

definition getRemainingTime ::
  "('env, 'a) RateLimitConfig \<Rightarrow> 'env \<Rightarrow> 'a list \<Rightarrow> int \<Rightarrow> limits \<Rightarrow> js_error + int" where
  "getRemainingTime config env args now lims =
     (case getKey config env args of
        Inl e \<Rightarrow> Inl e
      | Inr key \<Rightarrow>
          (case lims key of
             None \<Rightarrow> Inr 0
           | Some entry \<Rightarrow> if now > resetTime entry then Inr 0 else Inr (resetTime entry - now)))"

definition getRemainingRequests ::
  "('env, 'a) RateLimitConfig \<Rightarrow> 'env \<Rightarrow> 'a list \<Rightarrow> int \<Rightarrow> limits \<Rightarrow> js_error + int" where
  "getRemainingRequests config env args now lims =
     (case getKey config env args of
        Inl e \<Rightarrow> Inl e
      | Inr key \<Rightarrow>
          (case lims key of
             None \<Rightarrow> Inr (maxRequests config)
           | Some entry \<Rightarrow>
               if now > resetTime entry then Inr (maxRequests config)
               else Inr (max 0 (maxRequests config - count entry))))"

text \<open>
  A run of \<open>isAllowed\<close> calls on one limiter, one after the other: each call with the
  ambient state, the arguments and the two clock reads it sees.
\<close>

record ('env, 'a) call =
  c_env :: 'env
  c_args :: "'a list"
  c_sweep :: int
  c_now :: int

fun isAllowed_calls ::
  "('env, 'a) RateLimitConfig \<Rightarrow> limits \<Rightarrow> ('env, 'a) call list
     \<Rightarrow> (js_error + bool) list \<times> limits" where
  "isAllowed_calls config lims [] = ([], lims)"
| "isAllowed_calls config lims (c # cs) =
     (case isAllowed config (c_env c) (c_args c) (c_sweep c) (c_now c) lims of
        (r, lims1) \<Rightarrow>
          (case isAllowed_calls config lims1 cs of (rs, lims2) \<Rightarrow> (r # rs, lims2)))"

text \<open>How many calls of a run were made with derived key \<open>key\<close> and admitted.\<close>

fun admitted :: "('env, 'a) RateLimitConfig \<Rightarrow> string \<Rightarrow> ('env, 'a) call list
     \<Rightarrow> (js_error + bool) list \<Rightarrow> nat" where
  "admitted config key (c # cs) (r # rs) =
     (if getKey config (c_env c) (c_args c) = Inr key \<and> r = Inr True then 1 else 0)
       + admitted config key cs rs"
| "admitted config key _ _ = 0"

text \<open>How many calls of a run were made with derived key \<open>key\<close>.\<close>

fun key_calls :: "('env, 'a) RateLimitConfig \<Rightarrow> string \<Rightarrow> ('env, 'a) call list \<Rightarrow> nat" where
  "key_calls config key [] = 0"
| "key_calls config key (c # cs) =
     (if getKey config (c_env c) (c_args c) = Inr key then 1 else 0) + key_calls config key cs"

text \<open>
  Two notions for the analysis of runs. In every state a run reaches from the empty
  limiter, each entry has counted at least the admission that created it.
\<close>

definition counts_positive :: "limits \<Rightarrow> bool" where
  "counts_positive lims \<longleftrightarrow> (\<forall>key e. lims key = Some e \<longrightarrow> 1 \<le> count e)"

text \<open>
  The admissions a key can still get from calls whose clock reads lie in \<open>[s, s + w]\<close>,
  for a limit of \<open>n\<close>, from the entry it has when these calls begin: the rest of the
  entry's quota, and a fresh quota of \<open>n\<close> if the entry expires inside the interval.
\<close>

definition window_bound :: "int \<Rightarrow> int \<Rightarrow> int \<Rightarrow> RateLimitEntry option \<Rightarrow> int" where
  "window_bound n w s entry =
     (case entry of
        None \<Rightarrow> n
      | Some e \<Rightarrow>
          if resetTime e \<ge> s + w then max 0 (n - count e)
          else if resetTime e < s then n
          else max 0 (n - count e) + n)"

subsection \<open>The message limiter\<close>

text \<open>
  The generator of \<open>messageRateLimiter\<close>. \<open>json_parse\<close> stands for \<^verbatim>\<open>JSON.parse\<close>
  (\<open>Inl SyntaxError\<close> where it throws). \<^verbatim>\<open>localStorage.getItem('user')\<close> is tested for
  truthiness, so the empty string counts as absent.
\<close>

definition messageKeyGenerator ::
  "(string \<Rightarrow> js_error + jsval) \<Rightarrow> storage \<Rightarrow> jsval list \<Rightarrow> js_error + string" where
  "messageKeyGenerator json_parse store args =
     (case (case store ''user'' of
              None \<Rightarrow> Inr (JStr ''anonymous'')
            | Some raw \<Rightarrow>
                if raw = [] then Inr (JStr ''anonymous'')
                else (case json_parse raw of
                        Inl e \<Rightarrow> Inl e
                      | Inr user \<Rightarrow> js_get user ''userId'')) of
        Inl e \<Rightarrow> Inl e
      | Inr userId \<Rightarrow>
          (let operation = (if js_truthy (js_first args) then js_first args else JStr ''default'')
           in Inr (js_to_string userId @ ''-'' @ js_to_string operation)))"

text \<open>A \<open>json_parse\<close> that rejects every text, for runs in which the storage holds no
  user and \<^verbatim>\<open>JSON.parse\<close> is not reached.\<close>

definition json_rejects :: "string \<Rightarrow> js_error + jsval" where
  "json_rejects raw = Inl SyntaxError"

definition messageRateLimiter ::
  "(string \<Rightarrow> js_error + jsval) \<Rightarrow> (storage, jsval) RateLimitConfig" where
  "messageRateLimiter json_parse =
     \<lparr>maxRequests = 5, windowMs = 30000, keyGenerator = Some (messageKeyGenerator json_parse)\<rparr>"

subsection \<open>withRateLimit\<close>

text \<open>
  What a wrapped call does: it throws the limiter's error without calling \<open>fn\<close>
  (\<open>Rejected\<close> with the message), it lets an exception of the key generator escape
  (\<open>KeyThrew\<close>), or it calls \<open>fn\<close> on the arguments and returns what \<open>fn\<close> returns
  (\<open>Invoked\<close>).
\<close>

datatype 'r guarded = Rejected string | KeyThrew js_error | Invoked 'r

definition default_errorMessage :: string where
  "default_errorMessage = ''Rate limit exceeded. Please try again later.''"

text \<open>\<open>later\<close> is the clock read of \<open>getRemainingTime\<close>, after \<open>isAllowed\<close> has returned.\<close>

definition withRateLimit ::
  "('a list \<Rightarrow> 'r) \<Rightarrow> ('env, 'a) RateLimitConfig \<Rightarrow> string option
     \<Rightarrow> 'env \<Rightarrow> 'a list \<Rightarrow> int \<Rightarrow> int \<Rightarrow> int \<Rightarrow> limits \<Rightarrow> 'r guarded \<times> limits" where
  "withRateLimit fn rateLimiter errorMessage env args sweep now later lims =
     (case isAllowed rateLimiter env args sweep now lims of
        (Inl e, lims1) \<Rightarrow> (KeyThrew e, lims1)
      | (Inr allowed, lims1) \<Rightarrow>
          if \<not> allowed then
            (case getRemainingTime rateLimiter env args later lims1 of
               Inl e \<Rightarrow> (KeyThrew e, lims1)
             | Inr remainingTime \<Rightarrow>
                 (let seconds = \<lceil>real_of_int remainingTime / 1000\<rceil>
                  in (Rejected
                        ((case errorMessage of None \<Rightarrow> default_errorMessage | Some m \<Rightarrow> m)
                           @ '' Try again in '' @ show_int seconds @ '' seconds.''),
                      lims1)))
          else (Invoked (fn args), lims1))"

subsection \<open>retryWithBackoff\<close>

text \<open>
  What a retry loop throws: an error it caught, or \<^verbatim>\<open>undefined\<close> when \<^verbatim>\<open>lastError\<close> was never
  assigned.
\<close>

datatype 'e rejection = Reject 'e | RejectUndefined

text \<open>
  The loop from a given \<open>attempt\<close>. \<open>fn k\<close> is the outcome of the \<open>k\<close>-th invocation of
  the wrapped function (\<open>Inl\<close> a rejection), \<open>random k\<close> the value of \<^verbatim>\<open>Math.random()\<close>
  drawn after attempt \<open>k\<close> failed. The result comes with the number of invocations made
  and the delays waited, in order.
\<close>

function retryWithBackoff_from ::
  "(nat \<Rightarrow> 'e + 'a) \<Rightarrow> int \<Rightarrow> real \<Rightarrow> (nat \<Rightarrow> real) \<Rightarrow> int \<Rightarrow> 'e option
     \<Rightarrow> ('e rejection + 'a) \<times> nat \<times> real list" where
  "retryWithBackoff_from fn maxRetries baseDelay random attempt lastError =
     (if attempt \<le> maxRetries then
        (case fn (nat attempt) of
           Inr v \<Rightarrow> (Inr v, 1, [])
         | Inl error \<Rightarrow>
             if attempt = maxRetries then (Inl (Reject error), 1, [])
             else
               (case retryWithBackoff_from fn maxRetries baseDelay random (attempt + 1) (Some error) of
                  (r, n, delays) \<Rightarrow>
                    (r, Suc n,
                     (baseDelay * 2 ^ nat (attempt - 1) + random (nat attempt) * 1000) # delays)))
      else (Inl (case lastError of None \<Rightarrow> RejectUndefined | Some e \<Rightarrow> Reject e), 0, []))"
  by pat_completeness auto
termination
  by (relation "measure (\<lambda>(fn, maxRetries, baseDelay, random, attempt, lastError).
                   nat (maxRetries + 1 - attempt))") auto

declare retryWithBackoff_from.simps [simp del]

definition retryWithBackoff ::
  "(nat \<Rightarrow> 'e + 'a) \<Rightarrow> int \<Rightarrow> real \<Rightarrow> (nat \<Rightarrow> real) \<Rightarrow> ('e rejection + 'a) \<times> nat \<times> real list" where
  "retryWithBackoff fn maxRetries baseDelay random =
     retryWithBackoff_from fn maxRetries baseDelay random 1 None"

subsection \<open>The single-message send\<close>

text \<open>
  \<open>messageAPI.sendSingleDocument\<close>: the request goes through \<open>withRateLimit\<close> on the
  message limiter; the wrapped function posts the form under \<open>retryWithBackoff\<close> with 3
  attempts and a base delay of 1000. \<open>post data k\<close> is the outcome of the \<open>k\<close>-th POST of
  the form built from \<open>data\<close>. The wrapper receives the one argument \<open>data\<close>.
\<close>

definition sendSingleDocument ::
  "(string \<Rightarrow> js_error + jsval) \<Rightarrow> (jsval \<Rightarrow> nat \<Rightarrow> 'e + 'a) \<Rightarrow> (nat \<Rightarrow> real)
     \<Rightarrow> storage \<Rightarrow> jsval \<Rightarrow> int \<Rightarrow> int \<Rightarrow> int \<Rightarrow> limits
     \<Rightarrow> (('e rejection + 'a) \<times> nat \<times> real list) guarded \<times> limits" where
  "sendSingleDocument json_parse post random store data sweep now later lims =
     withRateLimit
       (\<lambda>args. retryWithBackoff (post (js_first args)) 3 1000 random)
       (messageRateLimiter json_parse)
       (Some ''Too many single message requests. Please wait before sending another message.'')
       store [data] sweep now later lims"

subsection \<open>CircuitBreaker\<close>

datatype breaker_state = CLOSED | OPEN | HALF_OPEN

record CircuitBreaker =
  threshold :: int
  timeout :: int
  resetTimeout :: int
  failureCount :: int
  lastFailureTime :: int
  state :: breaker_state

definition new_CircuitBreaker :: "int \<Rightarrow> int \<Rightarrow> int \<Rightarrow> CircuitBreaker" where
  "new_CircuitBreaker th tm rt =
     \<lparr>threshold = th, timeout = tm, resetTimeout = rt,
      failureCount = 0, lastFailureTime = 0, state = CLOSED\<rparr>"

definition onSuccess :: "CircuitBreaker \<Rightarrow> CircuitBreaker" where
  "onSuccess cb = cb\<lparr>failureCount := 0, state := CLOSED\<rparr>"

definition onFailure :: "int \<Rightarrow> CircuitBreaker \<Rightarrow> CircuitBreaker" where
  "onFailure now cb =
     (let cb1 = cb\<lparr>failureCount := failureCount cb + 1, lastFailureTime := now\<rparr>
      in if failureCount cb1 \<ge> threshold cb1 then cb1\<lparr>state := OPEN\<rparr> else cb1)"

text \<open>What \<open>execute\<close> throws: its own \<^verbatim>\<open>Error\<close> with a message, or the operation's error.\<close>

datatype 'e thrown = Error string | Rethrown 'e

text \<open>
  \<open>execute\<close>, one call run to its end. \<open>now\<close> is the clock read of the OPEN test, \<open>fn\<close>
  the outcome the operation has if it is invoked, \<open>later\<close> the clock read of
  \<open>onFailure\<close>. The boolean tells whether the operation was invoked.
\<close>

definition execute ::
  "CircuitBreaker \<Rightarrow> int \<Rightarrow> 'e + 'a \<Rightarrow> int \<Rightarrow> ('e thrown + 'a) \<times> bool \<times> CircuitBreaker" where
  "execute cb now fn later =
     (if state cb = OPEN \<and> \<not> (now - lastFailureTime cb > resetTimeout cb) then
        (Inl (Error ''Circuit breaker is OPEN''), False, cb)
      else
        (let cb1 = (if state cb = OPEN then cb\<lparr>state := HALF_OPEN\<rparr> else cb) in
         case fn of
           Inr result \<Rightarrow> (Inr result, True, onSuccess cb1)
         | Inl error \<Rightarrow> (Inl (Rethrown error), True, onFailure later cb1)))"

text \<open>Failing \<open>execute\<close> calls one after the other: each with its two clock reads and the
  error its operation fails with.\<close>

fun execute_failing :: "CircuitBreaker \<Rightarrow> (int \<times> 'e \<times> int) list \<Rightarrow> bool list \<times> CircuitBreaker" where
  "execute_failing cb [] = ([], cb)"
| "execute_failing cb ((now, error, later) # calls) =
     (case execute cb now (Inl error :: 'e + unit) later of
        (r, invoked, cb1) \<Rightarrow>
          (case execute_failing cb1 calls of (invs, cb2) \<Rightarrow> (invoked # invs, cb2)))"

subsection \<open>Error classification and withRetry\<close>

datatype error_class =
    AppErrorC
  | NetworkErrorC
  | ValidationErrorC
  | AuthenticationErrorC
  | AuthorizationErrorC
  | NotFoundErrorC
  | ServerErrorC
  | WhatsAppAPIErrorC

text \<open>
  An \<open>AppError\<close> or an instance of one of its subclasses (\<open>cls\<close>; every subclass extends
  \<open>AppError\<close> directly, so \<^verbatim>\<open>instanceof\<close> a subclass is equality of \<open>cls\<close>). The \<open>details\<close>
  and \<open>context\<close> payloads, which no branch inspects, are left out.
\<close>

record AppError =
  cls :: error_class
  message :: string
  status :: "int option"
  code :: "string option"
  requestId :: "string option"

definition NetworkError :: "string \<Rightarrow> AppError" where
  "NetworkError m =
     \<lparr>cls = NetworkErrorC, message = m, status = Some 0, code = Some ''NETWORK_ERROR'', requestId = None\<rparr>"

definition ValidationError :: "string \<Rightarrow> AppError" where
  "ValidationError m =
     \<lparr>cls = ValidationErrorC, message = m, status = Some 400, code = Some ''VALIDATION_ERROR'', requestId = None\<rparr>"

definition AuthenticationError :: "string \<Rightarrow> AppError" where
  "AuthenticationError m =
     \<lparr>cls = AuthenticationErrorC, message = m, status = Some 401, code = Some ''AUTH_ERROR'', requestId = None\<rparr>"

definition AuthorizationError :: "string \<Rightarrow> AppError" where
  "AuthorizationError m =
     \<lparr>cls = AuthorizationErrorC, message = m, status = Some 403, code = Some ''AUTHZ_ERROR'', requestId = None\<rparr>"

definition NotFoundError :: "string \<Rightarrow> AppError" where
  "NotFoundError m =
     \<lparr>cls = NotFoundErrorC, message = m, status = Some 404, code = Some ''NOT_FOUND'', requestId = None\<rparr>"

definition ServerError :: "string \<Rightarrow> AppError" where
  "ServerError m =
     \<lparr>cls = ServerErrorC, message = m, status = Some 500, code = Some ''SERVER_ERROR'', requestId = None\<rparr>"

text \<open>
  What the operation rejects with, as far as \<open>handleApiError\<close> looks into it: a nullish
  value, or a value with the properties \<open>response\<close>, \<open>code\<close> and \<open>message\<close>, each
  possibly missing.
\<close>

record response_data =
  d_message :: "string option"
  d_code :: "string option"

record response =
  r_status :: "int option"
  r_data :: "response_data option"
  r_headers :: "(string \<rightharpoonup> string) option"

datatype raw_error =
    RawNullish
  | Raw (e_response: "response option") (e_code: "string option") (e_message: "string option")

text \<open>\<^verbatim>\<open>data?.message || d\<close> and \<^verbatim>\<open>data?.code || d\<close>: the default also replaces an empty string.\<close>

definition message_or :: "response_data option \<Rightarrow> string \<Rightarrow> string" where
  "message_or d dflt =
     (case d of
        None \<Rightarrow> dflt
      | Some x \<Rightarrow> (case d_message x of None \<Rightarrow> dflt | Some m \<Rightarrow> if m = [] then dflt else m))"

definition code_or :: "response_data option \<Rightarrow> string \<Rightarrow> string" where
  "code_or d dflt =
     (case d of
        None \<Rightarrow> dflt
      | Some x \<Rightarrow> (case d_code x of None \<Rightarrow> dflt | Some m \<Rightarrow> if m = [] then dflt else m))"

text \<open>
  \<open>handleApiError\<close>. Reading \<open>response\<close> of a nullish error and reading a header of a
  response without headers throw a TypeError. A 401 removes \<open>token\<close> and \<open>user\<close> from
  \<^verbatim>\<open>localStorage\<close>.
\<close>

definition handleApiError :: "raw_error \<Rightarrow> storage \<Rightarrow> (js_error + AppError) \<times> storage" where
  "handleApiError err store =
     (case err of
        RawNullish \<Rightarrow> (Inl TypeError, store)
      | Raw resp ecode emessage \<Rightarrow>
          (case resp of
             None \<Rightarrow>
               if ecode = Some ''NETWORK_ERROR'' \<or> emessage = Some ''Network Error'' then
                 (Inr (NetworkError
                    ''Unable to connect to server. Please check your internet connection.''), store)
               else (Inr (NetworkError ''Network error occurred''), store)
           | Some r \<Rightarrow>
               (case r_headers r of
                  None \<Rightarrow> (Inl TypeError, store)
                | Some headers \<Rightarrow>
                    (let st = r_status r; data = r_data r; rid = headers ''x-request-id'' in
                     if st = Some 400 then
                       (Inr (ValidationError (message_or data ''Invalid request data'')), store)
                     else if st = Some 401 then
                       (Inr (AuthenticationError (message_or data ''Authentication required'')),
                        store(''token'' := None, ''user'' := None))
                     else if st = Some 403 then
                       (Inr (AuthorizationError (message_or data ''Insufficient permissions'')), store)
                     else if st = Some 404 then
                       (Inr (NotFoundError (message_or data ''Resource not found'')), store)
                     else if st = Some 422 then
                       (Inr (ValidationError (message_or data ''Validation failed'')), store)
                     else if st = Some 429 then
                       (Inr \<lparr>cls = AppErrorC,
                             message = ''Too many requests. Please try again later.'',
                             status = Some 429, code = Some ''RATE_LIMIT'', requestId = rid\<rparr>, store)
                     else if st = Some 500 \<or> st = Some 502 \<or> st = Some 503 \<or> st = Some 504 then
                       (Inr (ServerError (message_or data ''Server error occurred'')), store)
                     else
                       (Inr \<lparr>cls = AppErrorC,
                             message = message_or data ''An unexpected error occurred'',
                             status = st, code = Some (code_or data ''UNKNOWN_ERROR''),
                             requestId = rid\<rparr>, store)))))"







subsection \<open>Captcha\<close>

definition chars :: string where
  "chars = ''ABCDEFGHIJKLMNOPQRSTUVWXYZ0123456789''"

text \<open>\<^verbatim>\<open>s.charAt(i)\<close>: the empty string outside the string.\<close>

definition charAt :: "string \<Rightarrow> int \<Rightarrow> string" where
  "charAt s i = (if 0 \<le> i \<and> i < int (length s) then [s ! nat i] else [])"

text \<open>\<open>random i\<close> is the value of \<^verbatim>\<open>Math.random()\<close> in round \<open>i\<close> of the loop.\<close>

definition generateCaptcha :: "(nat \<Rightarrow> real) \<Rightarrow> string" where
  "generateCaptcha random =
     fold (\<lambda>i result. result @ charAt chars \<lfloor>random i * real (length chars)\<rfloor>) [0..<5] []"

text \<open>
  The state of the component, and \<open>verified\<close>, the values passed to \<open>onVerify\<close> so far,
  oldest first.
\<close>

record Captcha =
  captchaCode :: string
  userInput :: string
  isValid :: bool
  error :: string
  verified :: "bool list"

text \<open>
  The effect that compares the input with the code. \<open>toUpperCase\<close> stands for
  \<^verbatim>\<open>String.prototype.toUpperCase\<close>.
\<close>

definition check_effect :: "(string \<Rightarrow> string) \<Rightarrow> Captcha \<Rightarrow> Captcha" where
  "check_effect toUpperCase c =
     (let isValidInput =
            (toUpperCase (userInput c) = toUpperCase (captchaCode c)
               \<and> length (userInput c) = length (captchaCode c))
      in c\<lparr>isValid := isValidInput,
            verified := verified c @ [isValidInput],
            error := (if userInput c \<noteq> [] \<and> \<not> isValidInput
                      then ''CAPTCHA code does not match'' else [])\<rparr>)"

text \<open>After an update the effect runs when \<open>userInput\<close> or \<open>captchaCode\<close> has changed
  (\<open>onVerify\<close> is the same function on every render).\<close>

definition rerender :: "(string \<Rightarrow> string) \<Rightarrow> Captcha \<Rightarrow> Captcha \<Rightarrow> Captcha" where
  "rerender toUpperCase before after =
     (if userInput after \<noteq> userInput before \<or> captchaCode after \<noteq> captchaCode before
      then check_effect toUpperCase after else after)"

definition handleRefresh :: "(string \<Rightarrow> string) \<Rightarrow> (nat \<Rightarrow> real) \<Rightarrow> Captcha \<Rightarrow> Captcha" where
  "handleRefresh toUpperCase random c =
     rerender toUpperCase c
       (c\<lparr>captchaCode := generateCaptcha random, userInput := [], error := [], isValid := False\<rparr>)"

definition handleInputChange :: "(string \<Rightarrow> string) \<Rightarrow> string \<Rightarrow> Captcha \<Rightarrow> Captcha" where
  "handleInputChange toUpperCase v c = rerender toUpperCase c (c\<lparr>userInput := v\<rparr>)"

text \<open>Mounting: both effects run on the initial state, then the new code is rendered.\<close>

definition mount :: "(string \<Rightarrow> string) \<Rightarrow> (nat \<Rightarrow> real) \<Rightarrow> Captcha" where
  "mount toUpperCase random =
     (let c0 = \<lparr>captchaCode = [], userInput = [], isValid = False, error = [], verified = []\<rparr>;
          c1 = check_effect toUpperCase c0
      in rerender toUpperCase c1 (c1\<lparr>captchaCode := generateCaptcha random\<rparr>))"

text \<open>
  The last value passed to \<open>onVerify\<close> is the validity of the input and code now in the
  state: the effect has run since either of them last changed.
\<close>

definition reported_current :: "(string \<Rightarrow> string) \<Rightarrow> Captcha \<Rightarrow> bool" where
  "reported_current toUpperCase c \<longleftrightarrow>
     verified c \<noteq> []
     \<and> last (verified c) =
         (toUpperCase (userInput c) = toUpperCase (captchaCode c)
            \<and> length (userInput c) = length (captchaCode c))"

text \<open>Upper-casing of ASCII letters, one instance of \<open>toUpperCase\<close>.\<close>

definition upper_char :: "char \<Rightarrow> char" where
  "upper_char ch =
     (let n = (of_char ch :: nat) in if 97 \<le> n \<and> n \<le> 122 then char_of (n - 32) else ch)"

definition ascii_upper :: "string \<Rightarrow> string" where
  "ascii_upper s = map upper_char s"

section \<open>Properties\<close>

subsection \<open>retryWithBackoff\<close>

lemma retry_step_fail:
  assumes "attempt < maxRetries" and "fn (nat attempt) = Inl e"
  shows "retryWithBackoff_from fn maxRetries baseDelay random attempt lastError =
           (case retryWithBackoff_from fn maxRetries baseDelay random (attempt + 1) (Some e) of
              (r, n, delays) \<Rightarrow>
                (r, Suc n, (baseDelay * 2 ^ nat (attempt - 1) + random (nat attempt) * 1000) # delays))"
  using assms by (subst retryWithBackoff_from.simps) simp

lemma retry_step_last:
  assumes "fn (nat maxRetries) = Inl e"
  shows "retryWithBackoff_from fn maxRetries baseDelay random maxRetries lastError =
           (Inl (Reject e), 1, [])"
  using assms by (subst retryWithBackoff_from.simps) simp

lemma retry_step_ok:
  assumes "attempt \<le> maxRetries" and "fn (nat attempt) = Inr v"
  shows "retryWithBackoff_from fn maxRetries baseDelay random attempt lastError = (Inr v, 1, [])"
  using assms by (subst retryWithBackoff_from.simps) simp

text \<open>
  Claim C7. \<open>retryWithBackoff fn 3 100\<close>: when \<open>fn\<close> fails on its first two invocations
  and succeeds on the third, the call resolves with that value after exactly 3
  invocations; when \<open>fn\<close> fails on all three, it rejects with the error of the third
  after exactly 3 invocations. Two delays are waited, \<open>100 + jitter\<close> and \<open>200 + jitter\<close>.
\<close>

theorem retryWithBackoff_three_attempts:
  "(fn 1 = Inl e1 \<and> fn 2 = Inl e2 \<and> fn 3 = Inr v \<longrightarrow>
      retryWithBackoff fn 3 100 random = (Inr v, 3, [100 + random 1 * 1000, 200 + random 2 * 1000]))
   \<and> (fn 1 = Inl e1 \<and> fn 2 = Inl e2 \<and> fn 3 = Inl e3 \<longrightarrow>
      retryWithBackoff fn 3 100 random =
        (Inl (Reject e3), 3, [100 + random 1 * 1000, 200 + random 2 * 1000]))"
proof (intro conjI impI)
  assume a: "fn 1 = Inl e1 \<and> fn 2 = Inl e2 \<and> fn 3 = Inr v"
  have "retryWithBackoff_from fn 3 100 random 3 (Some e2) = (Inr v, 1, [])"
    using a by (intro retry_step_ok) simp_all
  then have "retryWithBackoff_from fn 3 100 random 2 (Some e1) = (Inr v, 2, [200 + random 2 * 1000])"
    using a retry_step_fail[of 2 3 fn e2 100 random "Some e1"] by simp
  then show "retryWithBackoff fn 3 100 random = (Inr v, 3, [100 + random 1 * 1000, 200 + random 2 * 1000])"
    using a retry_step_fail[of 1 3 fn e1 100 random None] by (simp add: retryWithBackoff_def)
next
  assume a: "fn 1 = Inl e1 \<and> fn 2 = Inl e2 \<and> fn 3 = Inl e3"
  have "retryWithBackoff_from fn 3 100 random 3 (Some e2) = (Inl (Reject e3), 1, [])"
    using a by (intro retry_step_last) simp_all
  then have "retryWithBackoff_from fn 3 100 random 2 (Some e1) =
               (Inl (Reject e3), 2, [200 + random 2 * 1000])"
    using a retry_step_fail[of 2 3 fn e2 100 random "Some e1"] by simp
  then show "retryWithBackoff fn 3 100 random =
               (Inl (Reject e3), 3, [100 + random 1 * 1000, 200 + random 2 * 1000])"
    using a retry_step_fail[of 1 3 fn e1 100 random None] by (simp add: retryWithBackoff_def)
qed

theorem retryWithBackoff_three_attempts_witness:
  "retryWithBackoff (\<lambda>k. if k < 3 then Inl k else Inr True) 3 100 (\<lambda>k. 0) = (Inr True, 3, [100, 200])
   \<and> retryWithBackoff (\<lambda>k. Inl k :: nat + bool) 3 100 (\<lambda>k. 0) = (Inl (Reject 3), 3, [100, 200])"
  using retryWithBackoff_three_attempts[of "\<lambda>k. if k < 3 then Inl k else Inr True" 1 2 True "\<lambda>k. 0" 3]
    retryWithBackoff_three_attempts[of "\<lambda>k. Inl k :: nat + bool" 1 2 True "\<lambda>k. 0" 3]
  by simp

text \<open>
  Claim C10. With \<open>maxRetries < 1\<close> the loop body never runs: \<open>fn\<close> is not invoked, and
  the final \<^verbatim>\<open>throw lastError\<close> throws the unassigned variable, that is \<^verbatim>\<open>undefined\<close>, not
  an error object.
\<close>

theorem retryWithBackoff_no_attempt:
  assumes "maxRetries < 1"
  shows "retryWithBackoff fn maxRetries baseDelay random = (Inl RejectUndefined, 0, [])"
  using assms by (simp add: retryWithBackoff_def retryWithBackoff_from.simps)

theorem retryWithBackoff_no_attempt_witness:
  "(0::int) < 1 \<and>
   retryWithBackoff (\<lambda>k. Inr k :: unit + nat) 0 100 (\<lambda>k. 0) = (Inl RejectUndefined, 0, [])"
  using retryWithBackoff_no_attempt[of 0 "\<lambda>k. Inr k :: unit + nat" 100 "\<lambda>k. 0"] by simp

subsection \<open>withRetry\<close>


lemma handleApiError_class_of_store:
  "fst (handleApiError err store) = fst (handleApiError err store')"
  by (simp add: handleApiError_def Let_def split: raw_error.splits option.splits)









subsection \<open>withRateLimit\<close>





subsection \<open>Captcha\<close>

lemma length_chars: "length chars = 36"
  by (simp add: chars_def)

lemma charAt_random:
  assumes "0 \<le> r" and "r < 1"
  shows "\<exists>ch \<in> set chars. charAt chars \<lfloor>r * real (length chars)\<rfloor> = [ch]"
proof -
  have lo: "0 \<le> \<lfloor>r * 36\<rfloor>" using assms by simp
  have "r * 36 < 36" using assms by simp
  then have hi: "\<lfloor>r * 36\<rfloor> < 36" by (simp add: floor_less_iff)
  have "nat \<lfloor>r * 36\<rfloor> < 36" using lo hi by linarith
  then have "nat \<lfloor>r * 36\<rfloor> < length chars" by (simp only: length_chars)
  then have "chars ! nat \<lfloor>r * 36\<rfloor> \<in> set chars" by (rule nth_mem)
  moreover have "charAt chars \<lfloor>r * real (length chars)\<rfloor> = [chars ! nat \<lfloor>r * 36\<rfloor>]"
    using lo hi by (simp add: charAt_def length_chars)
  ultimately show ?thesis by blast
qed

lemma upt_5: "[0..<5] = [0, 1, 2, 3, 4]"
  by (simp add: upt_rec)

lemma generateCaptcha_shape:
  assumes "\<forall>i<5. 0 \<le> random i \<and> random i < 1"
  shows "length (generateCaptcha random) = 5 \<and> set (generateCaptcha random) \<subseteq> set chars"
proof -
  have r: "\<And>i. i < 5 \<Longrightarrow> \<exists>ch \<in> set chars. charAt chars \<lfloor>random i * real (length chars)\<rfloor> = [ch]"
    using assms by (intro charAt_random) auto
  obtain a where a: "a \<in> set chars" "charAt chars \<lfloor>random 0 * real (length chars)\<rfloor> = [a]"
    using r[of 0] by auto
  obtain b where b: "b \<in> set chars" "charAt chars \<lfloor>random (Suc 0) * real (length chars)\<rfloor> = [b]"
    using r[of "Suc 0"] by auto
  obtain c where c: "c \<in> set chars" "charAt chars \<lfloor>random 2 * real (length chars)\<rfloor> = [c]"
    using r[of 2] by auto
  obtain d where d: "d \<in> set chars" "charAt chars \<lfloor>random 3 * real (length chars)\<rfloor> = [d]"
    using r[of 3] by auto
  obtain e where e: "e \<in> set chars" "charAt chars \<lfloor>random 4 * real (length chars)\<rfloor> = [e]"
    using r[of 4] by auto
  have "generateCaptcha random = [a, b, c, d, e]"
    by (simp add: generateCaptcha_def upt_5 a b c d e)
  then show ?thesis using a b c d e by simp
qed

lemma upper_char_chars: "ch \<in> set chars \<Longrightarrow> upper_char ch = ch"
  by (auto simp: chars_def upper_char_def)

lemma ascii_upper_chars: "set s \<subseteq> set chars \<Longrightarrow> ascii_upper s = s"
  unfolding ascii_upper_def by (rule map_idI) (auto dest: upper_char_chars)

lemma captcha_code_A: "generateCaptcha (\<lambda>i. 0) = ''AAAAA''"
  by (simp add: generateCaptcha_def upt_5 charAt_def chars_def)

lemma ascii_upper_aaaaa: "ascii_upper ''aaaaa'' = ''AAAAA''"
  by code_simp

lemma check_effect_current: "reported_current toUpperCase (check_effect toUpperCase c)"
  by (simp add: reported_current_def check_effect_def Let_def)

lemma rerender_current:
  assumes "reported_current toUpperCase before" and "verified after = verified before"
  shows "reported_current toUpperCase (rerender toUpperCase before after)"
proof (cases "userInput after \<noteq> userInput before \<or> captchaCode after \<noteq> captchaCode before")
  case True
  then show ?thesis by (simp add: rerender_def check_effect_current)
next
  case False
  then show ?thesis using assms by (simp add: rerender_def reported_current_def)
qed

lemma ascii_upper_b2c3d: "ascii_upper ''b2c3d'' = ''B2C3D''"
  by code_simp

lemma ascii_upper_B2C3D: "ascii_upper ''B2C3D'' = ''B2C3D''"
  by code_simp

text \<open>
  Claim C8. With \<^verbatim>\<open>Math.random()\<close> in [0,1) and a \<open>toUpperCase\<close> that leaves strings over
  \<open>[A-Z0-9]\<close> as they are: the generated code has exactly 5 characters, all from
  \<open>[A-Z0-9]\<close>. The effect reports the input valid exactly when its upper-casing equals
  the code and it has the code's length, so an input that is a proper prefix of the code
  is invalid; every keystroke that changes the input reports this validity to
  \<open>onVerify\<close>. A refresh puts a newly generated code in place, empties the input and
  leaves \<open>isValid\<close> false; it passes \<open>false\<close> to \<open>onVerify\<close> whenever the input was not
  empty or the code changes, and passes nothing when the input was empty and the same
  code is drawn again. In every state the component reaches (from mounting, by
  keystrokes and refreshes) the last value passed to \<open>onVerify\<close> is the validity of the
  current input, so after a refresh that last value is \<open>false\<close> in either case.
\<close>

theorem captcha_contract:
  assumes "\<forall>i<5. 0 \<le> random i \<and> random i < 1"
    and "\<forall>s. set s \<subseteq> set chars \<longrightarrow> toUpperCase s = s"
  shows "length (generateCaptcha random) = 5
       \<and> set (generateCaptcha random) \<subseteq> set chars
       \<and> (\<forall>c. captchaCode c = generateCaptcha random \<longrightarrow>
             (isValid (check_effect toUpperCase c) \<longleftrightarrow>
                toUpperCase (userInput c) = captchaCode c \<and> length (userInput c) = length (captchaCode c))
             \<and> verified (check_effect toUpperCase c) = verified c @ [isValid (check_effect toUpperCase c)])
       \<and> (\<forall>c rest. captchaCode c = generateCaptcha random \<and> captchaCode c = userInput c @ rest \<and> rest \<noteq> []
             \<longrightarrow> \<not> isValid (check_effect toUpperCase c))
       \<and> (\<forall>c v. captchaCode c = generateCaptcha random \<and> v \<noteq> userInput c \<longrightarrow>
             (isValid (handleInputChange toUpperCase v c) \<longleftrightarrow>
                toUpperCase v = generateCaptcha random \<and> length v = length (generateCaptcha random))
             \<and> verified (handleInputChange toUpperCase v c) =
                   verified c @ [isValid (handleInputChange toUpperCase v c)])
       \<and> (\<forall>c. captchaCode (handleRefresh toUpperCase random c) = generateCaptcha random
             \<and> userInput (handleRefresh toUpperCase random c) = []
             \<and> \<not> isValid (handleRefresh toUpperCase random c))
       \<and> (\<forall>c. userInput c \<noteq> [] \<or> captchaCode c \<noteq> generateCaptcha random \<longrightarrow>
             verified (handleRefresh toUpperCase random c) = verified c @ [False])
       \<and> (\<forall>c. userInput c = [] \<and> captchaCode c = generateCaptcha random \<longrightarrow>
             verified (handleRefresh toUpperCase random c) = verified c)
       \<and> (\<forall>c. reported_current toUpperCase c \<longrightarrow>
             reported_current toUpperCase (handleRefresh toUpperCase random c)
             \<and> last (verified (handleRefresh toUpperCase random c)) = False)
       \<and> reported_current toUpperCase (mount toUpperCase random)
       \<and> captchaCode (mount toUpperCase random) = generateCaptcha random
       \<and> (\<forall>c v. reported_current toUpperCase c \<longrightarrow>
             reported_current toUpperCase (handleInputChange toUpperCase v c))"
proof -
  let ?code = "generateCaptcha random"
  have shape: "length ?code = 5 \<and> set ?code \<subseteq> set chars"
    using assms(1) by (rule generateCaptcha_shape)
  then have up_code: "toUpperCase ?code = ?code" using assms(2) by simp
  have ne: "?code \<noteq> []" using shape by auto
  have len: "length (generateCaptcha random) = 5"
    using shape by simp
  have alpha: "set (generateCaptcha random) \<subseteq> set chars"
    using shape by simp
  have valid: "(\<forall>c. captchaCode c = generateCaptcha random \<longrightarrow>
             (isValid (check_effect toUpperCase c) \<longleftrightarrow>
                toUpperCase (userInput c) = captchaCode c \<and> length (userInput c) = length (captchaCode c))
             \<and> verified (check_effect toUpperCase c) = verified c @ [isValid (check_effect toUpperCase c)])"
    using up_code by (simp add: check_effect_def Let_def)
  have pre: "(\<forall>c rest. captchaCode c = generateCaptcha random \<and> captchaCode c = userInput c @ rest \<and> rest \<noteq> []
             \<longrightarrow> \<not> isValid (check_effect toUpperCase c))"
  proof (intro allI impI)
    fix c :: Captcha and rest :: string
    assume a: "captchaCode c = ?code \<and> captchaCode c = userInput c @ rest \<and> rest \<noteq> []"
    then have "length (captchaCode c) = length (userInput c) + length rest" by (metis length_append)
    with a have "length (userInput c) \<noteq> length (captchaCode c)" by simp
    then show "\<not> isValid (check_effect toUpperCase c)" by (simp add: check_effect_def Let_def)
  qed
  have key: "(\<forall>c v. captchaCode c = generateCaptcha random \<and> v \<noteq> userInput c \<longrightarrow>
             (isValid (handleInputChange toUpperCase v c) \<longleftrightarrow>
                toUpperCase v = generateCaptcha random \<and> length v = length (generateCaptcha random))
             \<and> verified (handleInputChange toUpperCase v c) =
                   verified c @ [isValid (handleInputChange toUpperCase v c)])"
    using up_code by (simp add: handleInputChange_def rerender_def check_effect_def Let_def)
  have rstate: "(\<forall>c. captchaCode (handleRefresh toUpperCase random c) = generateCaptcha random
             \<and> userInput (handleRefresh toUpperCase random c) = []
             \<and> \<not> isValid (handleRefresh toUpperCase random c))"
    using ne by (simp add: handleRefresh_def rerender_def check_effect_def Let_def)
  have rsays: "(\<forall>c. userInput c \<noteq> [] \<or> captchaCode c \<noteq> generateCaptcha random \<longrightarrow>
             verified (handleRefresh toUpperCase random c) = verified c @ [False])"
    using ne by (auto simp: handleRefresh_def rerender_def check_effect_def Let_def)
  have rsilent: "(\<forall>c. userInput c = [] \<and> captchaCode c = generateCaptcha random \<longrightarrow>
             verified (handleRefresh toUpperCase random c) = verified c)"
    by (simp add: handleRefresh_def rerender_def)
  have rlast: "(\<forall>c. reported_current toUpperCase c \<longrightarrow>
             reported_current toUpperCase (handleRefresh toUpperCase random c)
             \<and> last (verified (handleRefresh toUpperCase random c)) = False)"
  proof (intro allI impI)
    fix c :: Captcha
    assume cur: "reported_current toUpperCase c"
    let ?after = "c\<lparr>captchaCode := ?code, userInput := [], error := [], isValid := False\<rparr>"
    have "reported_current toUpperCase (rerender toUpperCase c ?after)"
      using cur by (rule rerender_current) simp
    then have now: "reported_current toUpperCase (handleRefresh toUpperCase random c)"
      by (simp add: handleRefresh_def)
    then have "last (verified (handleRefresh toUpperCase random c)) = False"
      using rstate ne by (simp add: reported_current_def)
    with now show "reported_current toUpperCase (handleRefresh toUpperCase random c)
             \<and> last (verified (handleRefresh toUpperCase random c)) = False" by simp
  qed
  have mnt: "reported_current toUpperCase (mount toUpperCase random)"
    by (simp add: mount_def Let_def rerender_current check_effect_current)
  have mcode: "captchaCode (mount toUpperCase random) = generateCaptcha random"
    by (simp add: mount_def Let_def rerender_def check_effect_def)
  have kcur: "(\<forall>c v. reported_current toUpperCase c \<longrightarrow>
             reported_current toUpperCase (handleInputChange toUpperCase v c))"
    by (simp add: handleInputChange_def rerender_current)
  show ?thesis
    by (intro conjI; fact)
qed

theorem captcha_contract_witness:
  "generateCaptcha (\<lambda>i. 0) = ''AAAAA''
   \<and> isValid (check_effect ascii_upper
        \<lparr>captchaCode = ''AAAAA'', userInput = ''aaaaa'', isValid = False, error = [], verified = []\<rparr>)
   \<and> \<not> isValid (check_effect ascii_upper
        \<lparr>captchaCode = ''AAAAA'', userInput = ''AAA'', isValid = False, error = [], verified = []\<rparr>)
   \<and> isValid (handleInputChange ascii_upper ''aaaaa''
        \<lparr>captchaCode = ''AAAAA'', userInput = [], isValid = False, error = [], verified = [False]\<rparr>)
   \<and> verified (handleInputChange ascii_upper ''aaaaa''
        \<lparr>captchaCode = ''AAAAA'', userInput = [], isValid = False, error = [], verified = [False]\<rparr>) = [False, True]
   \<and> userInput (handleRefresh ascii_upper (\<lambda>i. 0)
        \<lparr>captchaCode = ''B2C3D'', userInput = ''b2c3d'', isValid = True, error = [], verified = [True]\<rparr>) = []
   \<and> \<not> isValid (handleRefresh ascii_upper (\<lambda>i. 0)
        \<lparr>captchaCode = ''B2C3D'', userInput = ''b2c3d'', isValid = True, error = [], verified = [True]\<rparr>)
   \<and> verified (handleRefresh ascii_upper (\<lambda>i. 0)
        \<lparr>captchaCode = ''B2C3D'', userInput = ''b2c3d'', isValid = True, error = [], verified = [True]\<rparr>) = [True, False]
   \<and> last (verified (handleRefresh ascii_upper (\<lambda>i. 0)
        \<lparr>captchaCode = ''B2C3D'', userInput = ''b2c3d'', isValid = True, error = [], verified = [True]\<rparr>)) = False"
proof -
  let ?typed = "\<lparr>captchaCode = ''AAAAA'', userInput = ''aaaaa'', isValid = False, error = [], verified = []\<rparr>"
  let ?part = "\<lparr>captchaCode = ''AAAAA'', userInput = ''AAA'', isValid = False, error = [], verified = []\<rparr>"
  let ?blank = "\<lparr>captchaCode = ''AAAAA'', userInput = [], isValid = False, error = [], verified = [False]\<rparr>"
  let ?old = "\<lparr>captchaCode = ''B2C3D'', userInput = ''b2c3d'', isValid = True, error = [], verified = [True]\<rparr>"
  have h1: "\<forall>i<5. (0::real) \<le> (\<lambda>i. 0) i \<and> (\<lambda>i. 0::real) i < 1" by simp
  have h2: "\<forall>s. set s \<subseteq> set chars \<longrightarrow> ascii_upper s = s" by (simp add: ascii_upper_chars)
  note contract = captcha_contract[OF h1 h2]
  have valid: "isValid (check_effect ascii_upper ?typed)"
    using contract[THEN conjunct2, THEN conjunct2, THEN conjunct1, rule_format, of ?typed]
    by (simp add: captcha_code_A ascii_upper_aaaaa)
  have prefix: "\<not> isValid (check_effect ascii_upper ?part)"
    using contract[THEN conjunct2, THEN conjunct2, THEN conjunct2, THEN conjunct1, rule_format, of ?part "''AA''"]
    by (simp add: captcha_code_A)
  have key: "isValid (handleInputChange ascii_upper ''aaaaa'' ?blank)
             \<and> verified (handleInputChange ascii_upper ''aaaaa'' ?blank) = [False, True]"
    using contract[THEN conjunct2, THEN conjunct2, THEN conjunct2, THEN conjunct2, THEN conjunct1, rule_format, of ?blank "''aaaaa''"]
    by (simp add: captcha_code_A ascii_upper_aaaaa)
  have state: "userInput (handleRefresh ascii_upper (\<lambda>i. 0) ?old) = [] \<and> \<not> isValid (handleRefresh ascii_upper (\<lambda>i. 0) ?old)"
    using contract[THEN conjunct2, THEN conjunct2, THEN conjunct2, THEN conjunct2, THEN conjunct2, THEN conjunct1, rule_format, of ?old]
    by simp
  have says: "verified (handleRefresh ascii_upper (\<lambda>i. 0) ?old) = [True, False]"
    using contract[THEN conjunct2, THEN conjunct2, THEN conjunct2, THEN conjunct2, THEN conjunct2, THEN conjunct2, THEN conjunct1, rule_format, of ?old]
    by simp
  have cur: "reported_current ascii_upper ?old"
    by (simp add: reported_current_def ascii_upper_b2c3d ascii_upper_B2C3D)
  have final: "last (verified (handleRefresh ascii_upper (\<lambda>i. 0) ?old)) = False"
    using contract[THEN conjunct2, THEN conjunct2, THEN conjunct2, THEN conjunct2, THEN conjunct2, THEN conjunct2, THEN conjunct2, THEN conjunct2, THEN conjunct1, rule_format, of ?old] cur
    by simp
  show ?thesis
    using captcha_code_A valid prefix key state says final by blast
qed

subsection \<open>CircuitBreaker\<close>

lemma execute_open_rejects:
  assumes "state cb = OPEN" and "now - lastFailureTime cb \<le> resetTimeout cb"
  shows "execute cb now fn later = (Inl (Error ''Circuit breaker is OPEN''), False, cb)"
  using assms by (simp add: execute_def)

lemma execute_probe_success:
  assumes "state cb = OPEN" and "now - lastFailureTime cb > resetTimeout cb"
  shows "execute cb now (Inr v) later = (Inr v, True, cb\<lparr>failureCount := 0, state := CLOSED\<rparr>)"
  using assms by (simp add: execute_def onSuccess_def)

lemma execute_probe_failure:
  assumes "state cb = OPEN" and "now - lastFailureTime cb > resetTimeout cb"
    and "threshold cb \<le> failureCount cb + 1"
  shows "execute cb now (Inl e) later =
           (Inl (Rethrown e), True,
            cb\<lparr>failureCount := failureCount cb + 1, lastFailureTime := later, state := OPEN\<rparr>)"
  using assms by (simp add: execute_def onFailure_def Let_def)

lemma execute_closed_failure:
  assumes "state cb = CLOSED"
  shows "execute cb now (Inl e) later =
           (Inl (Rethrown e), True,
            cb\<lparr>failureCount := failureCount cb + 1, lastFailureTime := later,
               state := (if threshold cb \<le> failureCount cb + 1 then OPEN else CLOSED)\<rparr>)"
  using assms by (simp add: execute_def onFailure_def Let_def)

text \<open>Failures in a row on a closed breaker: the count reaches the threshold with the last
  one at the earliest, so every operation is invoked.\<close>

lemma execute_failing_closed:
  assumes "state cb = CLOSED" and "failureCount cb + int (length calls) \<le> threshold cb"
    and "calls \<noteq> []"
  shows "execute_failing cb calls =
           (replicate (length calls) True,
            cb\<lparr>failureCount := failureCount cb + int (length calls),
               lastFailureTime := snd (snd (last calls)),
               state := (if failureCount cb + int (length calls) = threshold cb then OPEN else CLOSED)\<rparr>)"
  using assms
proof (induction calls arbitrary: cb)
  case Nil
  then show ?case by simp
next
  case (Cons c calls)
  obtain now e later where c: "c = (now, e, later)" by (cases c) auto
  let ?cb1 = "cb\<lparr>failureCount := failureCount cb + 1, lastFailureTime := later,
               state := (if threshold cb \<le> failureCount cb + 1 then OPEN else CLOSED)\<rparr>"
  have step: "execute cb now (Inl e :: 'a + unit) later = (Inl (Rethrown e), True, ?cb1)"
    using Cons.prems(1) by (rule execute_closed_failure)
  show ?case
  proof (cases "calls = []")
    case True
    then show ?thesis using step c Cons.prems by (auto simp: )
  next
    case False
    then have "1 \<le> int (length calls)" by (cases calls) auto
    then have lt: "failureCount cb + 1 < threshold cb" using Cons.prems(2) by simp
    then have st1: "state ?cb1 = CLOSED" by simp
    have le1: "failureCount ?cb1 + int (length calls) \<le> threshold ?cb1" using Cons.prems(2) by simp
    have "execute_failing ?cb1 calls =
           (replicate (length calls) True,
            ?cb1\<lparr>failureCount := failureCount ?cb1 + int (length calls),
               lastFailureTime := snd (snd (last calls)),
               state := (if failureCount ?cb1 + int (length calls) = threshold ?cb1 then OPEN else CLOSED)\<rparr>)"
      using st1 le1 False by (rule Cons.IH)
    then show ?thesis using step c False by (simp add: add.assoc add.commute)
  qed
qed

text \<open>
  Claim C2, as the code has it. On a closed breaker with no failure counted and a
  threshold \<open>T \<ge> 1\<close>, \<open>T\<close> failing \<open>execute\<close> calls in a row all invoke their operation
  and leave the state OPEN. From then on a call made no later than \<open>resetTimeout\<close>
  milliseconds after the last failure throws the circuit-open error without invoking
  the operation and changes nothing; a call made more than \<open>resetTimeout\<close> milliseconds
  after it invokes the operation, and a success leaves the state CLOSED with
  \<open>failureCount\<close> 0, a failure leaves it OPEN.
\<close>

theorem circuit_breaker_cycle:
  assumes "state cb0 = CLOSED" and "failureCount cb0 = 0" and "1 \<le> threshold cb0"
    and "int (length calls) = threshold cb0"
    and "execute_failing cb0 calls = (invoked, cb)"
  shows "invoked = replicate (length calls) True
       \<and> state cb = OPEN
       \<and> failureCount cb = threshold cb0
       \<and> lastFailureTime cb = snd (snd (last calls))
       \<and> (\<forall>now fn later. now - lastFailureTime cb \<le> resetTimeout cb0 \<longrightarrow>
             execute cb now fn later = (Inl (Error ''Circuit breaker is OPEN''), False, cb))
       \<and> (\<forall>now v later. now - lastFailureTime cb > resetTimeout cb0 \<longrightarrow>
             execute cb now (Inr v) later = (Inr v, True, cb\<lparr>failureCount := 0, state := CLOSED\<rparr>))
       \<and> (\<forall>now e later. now - lastFailureTime cb > resetTimeout cb0 \<longrightarrow>
             execute cb now (Inl e) later =
               (Inl (Rethrown e), True,
                cb\<lparr>failureCount := threshold cb0 + 1, lastFailureTime := later, state := OPEN\<rparr>))"
proof -
  have ne: "calls \<noteq> []" using assms(3,4) by auto
  have le: "failureCount cb0 + int (length calls) \<le> threshold cb0" using assms(2,4) by simp
  have run: "execute_failing cb0 calls =
           (replicate (length calls) True,
            cb0\<lparr>failureCount := failureCount cb0 + int (length calls),
                lastFailureTime := snd (snd (last calls)),
                state := (if failureCount cb0 + int (length calls) = threshold cb0 then OPEN else CLOSED)\<rparr>)"
    using assms(1) le ne by (rule execute_failing_closed)
  have inv: "invoked = replicate (length calls) True"
    and cb: "cb = cb0\<lparr>failureCount := threshold cb0, lastFailureTime := snd (snd (last calls)),
                        state := OPEN\<rparr>"
    using run assms(2,4,5) by simp_all
  have st: "state cb = OPEN" and fc: "failureCount cb = threshold cb0"
    and lf: "lastFailureTime cb = snd (snd (last calls))"
    and rt: "resetTimeout cb = resetTimeout cb0" and th: "threshold cb = threshold cb0"
    by (simp_all add: cb)
  have rej: "\<forall>now fn later. now - lastFailureTime cb \<le> resetTimeout cb0 \<longrightarrow>
             execute cb now fn later = (Inl (Error ''Circuit breaker is OPEN''), False, cb)"
    using st rt by (simp add: execute_open_rejects)
  have ok: "\<forall>now v later. now - lastFailureTime cb > resetTimeout cb0 \<longrightarrow>
             execute cb now (Inr v) later = (Inr v, True, cb\<lparr>failureCount := 0, state := CLOSED\<rparr>)"
    using st rt by (simp add: execute_probe_success)
  have bad: "\<forall>now e later. now - lastFailureTime cb > resetTimeout cb0 \<longrightarrow>
             execute cb now (Inl e) later =
               (Inl (Rethrown e), True,
                cb\<lparr>failureCount := threshold cb0 + 1, lastFailureTime := later, state := OPEN\<rparr>)"
    using st rt th fc by (simp add: execute_probe_failure)
  show ?thesis using inv st fc lf rej ok bad by blast
qed

theorem circuit_breaker_cycle_witness:
  "execute_failing (new_CircuitBreaker 2 60000 30000) [(0, ''down'', 10), (20, ''down'', 30)] =
     ([True, True],
      \<lparr>threshold = 2, timeout = 60000, resetTimeout = 30000,
       failureCount = 2, lastFailureTime = 30, state = OPEN\<rparr>)
   \<and> execute \<lparr>threshold = 2, timeout = 60000, resetTimeout = 30000,
               failureCount = 2, lastFailureTime = 30, state = OPEN\<rparr> 10030 (Inr True :: string + bool) 10040
       = (Inl (Error ''Circuit breaker is OPEN''), False,
          \<lparr>threshold = 2, timeout = 60000, resetTimeout = 30000,
           failureCount = 2, lastFailureTime = 30, state = OPEN\<rparr>)
   \<and> execute \<lparr>threshold = 2, timeout = 60000, resetTimeout = 30000,
               failureCount = 2, lastFailureTime = 30, state = OPEN\<rparr> 31030 (Inr True :: string + bool) 31040
       = (Inr True, True,
          \<lparr>threshold = 2, timeout = 60000, resetTimeout = 30000,
           failureCount = 0, lastFailureTime = 30, state = CLOSED\<rparr>)
   \<and> execute \<lparr>threshold = 2, timeout = 60000, resetTimeout = 30000,
               failureCount = 2, lastFailureTime = 30, state = OPEN\<rparr> 31030 (Inl ''down'' :: string + bool) 31040
       = (Inl (Rethrown ''down''), True,
          \<lparr>threshold = 2, timeout = 60000, resetTimeout = 30000,
           failureCount = 3, lastFailureTime = 31040, state = OPEN\<rparr>)"
proof -
  let ?start = "new_CircuitBreaker 2 60000 30000"
  let ?calls = "[(0, ''down'', 10), (20, ''down'', 30)] :: (int \<times> string \<times> int) list"
  let ?opened = "\<lparr>threshold = 2, timeout = 60000, resetTimeout = 30000,
              failureCount = 2, lastFailureTime = 30, state = OPEN\<rparr>"
  have h1: "state ?start = CLOSED" and h2: "failureCount ?start = 0" and h3: "1 \<le> threshold ?start"
    and h4: "int (length ?calls) = threshold ?start"
    by (simp_all add: new_CircuitBreaker_def)
  have h5: "execute_failing ?start ?calls = ([True, True], ?opened)"
    by (simp add: new_CircuitBreaker_def execute_def onFailure_def Let_def)
  note cycle = circuit_breaker_cycle[OF h1 h2 h3 h4 h5]
  have rt: "resetTimeout ?start = 30000" and th: "threshold ?start = 2"
    by (simp_all add: new_CircuitBreaker_def)
  have a: "execute ?opened 10030 (Inr True :: string + bool) 10040
             = (Inl (Error ''Circuit breaker is OPEN''), False, ?opened)"
    using cycle[THEN conjunct2, THEN conjunct2, THEN conjunct2, THEN conjunct2, THEN conjunct1,
                rule_format, of 10030 "Inr True :: string + bool" 10040]
    by (simp add: rt)
  have b: "execute ?opened 31030 (Inr True :: string + bool) 31040
             = (Inr True, True, ?opened\<lparr>failureCount := 0, state := CLOSED\<rparr>)"
    using cycle[THEN conjunct2, THEN conjunct2, THEN conjunct2, THEN conjunct2, THEN conjunct2,
                THEN conjunct1, rule_format, of 31030 True 31040]
    by (simp add: rt)
  have c: "execute ?opened 31030 (Inl ''down'' :: string + bool) 31040
             = (Inl (Rethrown ''down''), True,
                ?opened\<lparr>failureCount := threshold ?start + 1, lastFailureTime := 31040, state := OPEN\<rparr>)"
    using cycle[THEN conjunct2, THEN conjunct2, THEN conjunct2, THEN conjunct2, THEN conjunct2,
                THEN conjunct2, rule_format, of 31030 "''down''" 31040]
    by (simp add: rt)
  show ?thesis using h5 a b c by (simp add: th)
qed

text \<open>
  The boundary of claim C2: a call made exactly \<open>resetTimeout\<close> milliseconds after the
  last failure (threshold 5, \<open>resetTimeout\<close> 30000, five failures at time 0, the call at
  time 30000) has waited at least \<open>resetTimeout\<close>, and its operation is not invoked.
\<close>

theorem circuit_breaker_boundary_counterexample:
  "state (snd (execute_failing (new_CircuitBreaker 5 60000 30000)
                 [(0, (), 0), (0, (), 0), (0, (), 0), (0, (), 0), (0, (), 0)])) = OPEN
   \<and> lastFailureTime (snd (execute_failing (new_CircuitBreaker 5 60000 30000)
                 [(0, (), 0), (0, (), 0), (0, (), 0), (0, (), 0), (0, (), 0)])) = 0
   \<and> fst (snd (execute (snd (execute_failing (new_CircuitBreaker 5 60000 30000)
                 [(0, (), 0), (0, (), 0), (0, (), 0), (0, (), 0), (0, (), 0)]))
               30000 (Inr () :: unit + unit) 30000)) = False"
  by (simp add: new_CircuitBreaker_def execute_def onFailure_def Let_def)

subsection \<open>RateLimiter\<close>

text \<open>One call: the sweep keeps an unexpired entry; a call for a key without an unexpired
  entry opens a window; a call inside the window counts or rejects; a call for another
  key (or one whose key generator throws) leaves the entry to the sweep.\<close>

lemma cleanup_keep: "lims key = Some e \<Longrightarrow> t \<le> resetTime e \<Longrightarrow> cleanup t lims key = Some e"
  by (simp add: cleanup_def)

lemma isAllowed_opens:
  assumes "getKey config env args = Inr key"
    and "case lims key of None \<Rightarrow> True | Some e \<Rightarrow> sweep > resetTime e \<or> now > resetTime e"
  shows "isAllowed config env args sweep now lims =
           (Inr True, (cleanup sweep lims)(key \<mapsto> \<lparr>count = 1, resetTime = now + windowMs config\<rparr>))"
  using assms by (auto simp: isAllowed_def cleanup_def split: option.splits)

lemma isAllowed_active:
  assumes "getKey config env args = Inr key" and "lims key = Some e"
    and "sweep \<le> resetTime e" and "now \<le> resetTime e"
  shows "isAllowed config env args sweep now lims =
           (if count e \<ge> maxRequests config then (Inr False, cleanup sweep lims)
            else (Inr True, (cleanup sweep lims)(key \<mapsto> e\<lparr>count := count e + 1\<rparr>)))"
  using assms by (auto simp: isAllowed_def cleanup_def split: option.splits)

lemma isAllowed_other:
  assumes "getKey config env args \<noteq> Inr key"
  shows "snd (isAllowed config env args sweep now lims) key = cleanup sweep lims key"
  using assms by (auto simp: isAllowed_def Let_def split: option.splits sum.splits)

text \<open>
  A run of calls while an entry of \<open>key\<close> stays unexpired: the entry counts the calls of
  \<open>key\<close> up to the limit and admits exactly the calls it counts.
\<close>

lemma window_run:
  assumes "lims key = Some e"
    and "\<forall>c \<in> set cs. c_sweep c \<le> resetTime e \<and> c_now c \<le> resetTime e"
    and "isAllowed_calls config lims cs = (rs, lims')"
    and "count e \<le> maxRequests config"
  shows "\<exists>e'. lims' key = Some e' \<and> resetTime e' = resetTime e
           \<and> count e' = min (maxRequests config) (count e + int (key_calls config key cs))
           \<and> int (admitted config key cs rs) = count e' - count e"
  using assms
proof (induction cs arbitrary: lims e rs lims')
  case Nil
  then show ?case by auto
next
  case (Cons c cs)
  obtain r lims1 where step: "isAllowed config (c_env c) (c_args c) (c_sweep c) (c_now c) lims = (r, lims1)"
    by (cases "isAllowed config (c_env c) (c_args c) (c_sweep c) (c_now c) lims")
  obtain rs1 lims2 where rest: "isAllowed_calls config lims1 cs = (rs1, lims2)"
    by (cases "isAllowed_calls config lims1 cs")
  from Cons.prems(3) step rest have rs: "rs = r # rs1" and l2: "lims' = lims2" by auto
  have t: "c_sweep c \<le> resetTime e" "c_now c \<le> resetTime e" using Cons.prems(2) by auto
  have tl: "\<forall>c \<in> set cs. c_sweep c \<le> resetTime e \<and> c_now c \<le> resetTime e"
    using Cons.prems(2) by auto
  show ?case
  proof (cases "getKey config (c_env c) (c_args c) = Inr key")
    case False
    have "snd (isAllowed config (c_env c) (c_args c) (c_sweep c) (c_now c) lims) key
            = cleanup (c_sweep c) lims key"
      using False by (rule isAllowed_other)
    with step have "lims1 key = Some e"
      using cleanup_keep[where lims=lims and key=key, OF Cons.prems(1) t(1)] by simp
    from Cons.IH[OF this tl rest Cons.prems(4)] False rs l2 show ?thesis by auto
  next
    case True
    have act: "isAllowed config (c_env c) (c_args c) (c_sweep c) (c_now c) lims =
           (if count e \<ge> maxRequests config then (Inr False, cleanup (c_sweep c) lims)
            else (Inr True, (cleanup (c_sweep c) lims)(key \<mapsto> e\<lparr>count := count e + 1\<rparr>)))"
      using True Cons.prems(1) t by (rule isAllowed_active)
    show ?thesis
    proof (cases "count e \<ge> maxRequests config")
      case full: True
      with act step have r: "r = Inr False" and l1: "lims1 key = Some e"
        using cleanup_keep[where lims=lims and key=key, OF Cons.prems(1) t(1)] by auto
      from Cons.IH[OF l1 tl rest Cons.prems(4)] True r rs l2 full Cons.prems(4) show ?thesis
        by auto
    next
      case room: False
      with act step have r: "r = Inr True" and l1: "lims1 key = Some (e\<lparr>count := count e + 1\<rparr>)"
        by auto
      have tl': "\<forall>c \<in> set cs. c_sweep c \<le> resetTime (e\<lparr>count := count e + 1\<rparr>)
                   \<and> c_now c \<le> resetTime (e\<lparr>count := count e + 1\<rparr>)" using tl by simp
      have le: "count (e\<lparr>count := count e + 1\<rparr>) \<le> maxRequests config" using room by simp
      from Cons.IH[OF l1 tl' rest le] True r rs l2 room show ?thesis
        by auto
    qed
  qed
qed

text \<open>Calls whose clock reads lie in \<open>[s, s + windowMs]\<close>: each admission uses up one of
  \<open>window_bound\<close>.\<close>

lemma segment_bound:
  assumes "1 \<le> maxRequests config"
    and "\<forall>c \<in> set seg. s \<le> c_now c \<and> c_now c \<le> s + windowMs config \<and> c_sweep c \<le> s + windowMs config"
    and "isAllowed_calls config lims seg = (rs, lims')"
  shows "int (admitted config key seg rs) \<le> window_bound (maxRequests config) (windowMs config) s (lims key)"
  using assms(2,3)
proof (induction seg arbitrary: lims rs lims')
  case Nil
  then show ?case using assms(1) by (auto simp: window_bound_def split: option.splits)
next
  case (Cons c cs)
  let ?n = "maxRequests config" and ?w = "windowMs config"
  obtain r lims1 where step: "isAllowed config (c_env c) (c_args c) (c_sweep c) (c_now c) lims = (r, lims1)"
    by (cases "isAllowed config (c_env c) (c_args c) (c_sweep c) (c_now c) lims")
  obtain rs1 lims2 where rest: "isAllowed_calls config lims1 cs = (rs1, lims2)"
    by (cases "isAllowed_calls config lims1 cs")
  from Cons.prems(2) step rest have rs: "rs = r # rs1" by auto
  have t: "s \<le> c_now c" "c_now c \<le> s + ?w" "c_sweep c \<le> s + ?w" using Cons.prems(1) by auto
  have tl: "\<forall>c \<in> set cs. s \<le> c_now c \<and> c_now c \<le> s + ?w \<and> c_sweep c \<le> s + ?w"
    using Cons.prems(1) by auto
  have IH: "int (admitted config key cs rs1) \<le> window_bound ?n ?w s (lims1 key)"
    using Cons.IH[OF tl rest] .
  show ?case
  proof (cases "getKey config (c_env c) (c_args c) = Inr key")
    case False
    have "snd (isAllowed config (c_env c) (c_args c) (c_sweep c) (c_now c) lims) key = cleanup (c_sweep c) lims key"
      using False by (rule isAllowed_other)
    with step have l1: "lims1 key = cleanup (c_sweep c) lims key" by simp
    have "window_bound ?n ?w s (lims1 key) \<le> window_bound ?n ?w s (lims key)"
      using t assms(1) unfolding l1 by (auto simp: window_bound_def cleanup_def split: option.splits)
    with IH False rs show ?thesis by simp
  next
    case True
    show ?thesis
    proof (cases "case lims key of None \<Rightarrow> True | Some e \<Rightarrow> c_sweep c > resetTime e \<or> c_now c > resetTime e")
      case opens: True
      have "isAllowed config (c_env c) (c_args c) (c_sweep c) (c_now c) lims =
           (Inr True, (cleanup (c_sweep c) lims)(key \<mapsto> \<lparr>count = 1, resetTime = c_now c + ?w\<rparr>))"
        using True opens by (rule isAllowed_opens)
      with step have r: "r = Inr True" and l1: "lims1 key = Some \<lparr>count = 1, resetTime = c_now c + ?w\<rparr>"
        by auto
      have "1 + window_bound ?n ?w s (lims1 key) \<le> window_bound ?n ?w s (lims key)"
        using t assms(1) opens unfolding l1 by (auto simp: window_bound_def split: option.splits)
      with IH True rs r show ?thesis by simp
    next
      case False
      then obtain e where e: "lims key = Some e" "c_sweep c \<le> resetTime e" "c_now c \<le> resetTime e"
        by (auto split: option.splits)
      have act: "isAllowed config (c_env c) (c_args c) (c_sweep c) (c_now c) lims =
           (if count e \<ge> ?n then (Inr False, cleanup (c_sweep c) lims)
            else (Inr True, (cleanup (c_sweep c) lims)(key \<mapsto> e\<lparr>count := count e + 1\<rparr>)))"
        using True e by (rule isAllowed_active)
      show ?thesis
      proof (cases "count e \<ge> ?n")
        case full: True
        with act step have r: "r = Inr False" and l1: "lims1 key = Some e"
          using cleanup_keep[where lims=lims and key=key, OF e(1,2)] by auto
        with IH True rs e show ?thesis by simp
      next
        case room: False
        with act step have r: "r = Inr True" and l1: "lims1 key = Some (e\<lparr>count := count e + 1\<rparr>)"
          by auto
        have "1 + window_bound ?n ?w s (lims1 key) \<le> window_bound ?n ?w s (lims key)"
          using t e room unfolding l1 e(1) by (auto simp: window_bound_def)
        with IH True rs r show ?thesis by simp
      qed
    qed
  qed
qed

text \<open>Every entry of a reachable state has a positive count.\<close>

lemma isAllowed_counts_positive:
  assumes "counts_positive lims"
  shows "counts_positive (snd (isAllowed config env args sweep now lims))"
proof -
  have pos: "\<And>k e. lims k = Some e \<Longrightarrow> 1 \<le> count e"
    using assms by (simp add: counts_positive_def)
  show ?thesis
    unfolding counts_positive_def
  proof (intro allI impI)
    fix k e
    assume "snd (isAllowed config env args sweep now lims) k = Some e"
    then show "1 \<le> count e"
      using pos[of k] pos[of k e]
      by (auto simp: isAllowed_def cleanup_def Let_def
               split: option.splits sum.splits if_splits dest: pos)
  qed
qed

lemma isAllowed_calls_counts_positive:
  assumes "counts_positive lims" and "isAllowed_calls config lims cs = (rs, lims')"
  shows "counts_positive lims'"
  using assms
proof (induction cs arbitrary: lims rs lims')
  case Nil then show ?case by simp
next
  case (Cons c cs)
  obtain r lims1 where step: "isAllowed config (c_env c) (c_args c) (c_sweep c) (c_now c) lims = (r, lims1)"
    by (cases "isAllowed config (c_env c) (c_args c) (c_sweep c) (c_now c) lims")
  obtain rs1 lims2 where rest: "isAllowed_calls config lims1 cs = (rs1, lims2)"
    by (cases "isAllowed_calls config lims1 cs")
  have "counts_positive lims1"
    using isAllowed_counts_positive[OF Cons.prems(1), of config "c_env c" "c_args c" "c_sweep c" "c_now c"] step by simp
  from Cons.IH[OF this rest] Cons.prems(2) step rest show ?case by simp
qed

lemma window_bound_reachable:
  assumes "1 \<le> n" and "case entry of None \<Rightarrow> True | Some e \<Rightarrow> 1 \<le> count e"
  shows "window_bound n w s entry \<le> (case entry of None \<Rightarrow> n | Some e \<Rightarrow> if resetTime e < s then n else 2 * n - 1)"
  using assms by (auto simp: window_bound_def split: option.splits)

text \<open>
  Claim C9, as the code has it. When the derived key has an unexpired entry whose count
  has reached \<open>maxRequests\<close>, \<open>isAllowed\<close> returns false; the key's entry stays as it is,
  no entry is created or changed, and every unexpired entry is kept. The sweep at the
  start of the call still removes the expired entries of other keys.
\<close>

theorem isAllowed_rejects_frame:
  assumes "getKey config env args = Inr key" and "lims key = Some e"
    and "sweep \<le> resetTime e" and "now \<le> resetTime e"
    and "maxRequests config \<le> count e"
  shows "fst (isAllowed config env args sweep now lims) = Inr False
       \<and> snd (isAllowed config env args sweep now lims) key = Some e
       \<and> (\<forall>k x. snd (isAllowed config env args sweep now lims) k = Some x \<longrightarrow> lims k = Some x)
       \<and> (\<forall>k x. lims k = Some x \<and> sweep \<le> resetTime x \<longrightarrow>
             snd (isAllowed config env args sweep now lims) k = Some x)
       \<and> (\<forall>k x. lims k = Some x \<and> resetTime x < sweep \<longrightarrow>
             snd (isAllowed config env args sweep now lims) k = None)"
proof -
  have "isAllowed config env args sweep now lims = (Inr False, cleanup sweep lims)"
    using isAllowed_active[OF assms(1), where lims=lims, OF assms(2,3,4)] assms(5) by simp
  then show ?thesis
    using assms(2,3) by (auto simp: cleanup_def split: option.splits if_splits)
qed

theorem isAllowed_rejects_frame_witness:
  "fst (isAllowed (messageRateLimiter json_rejects) Map.empty [JStr ''send''] 35000 35000
          (Map.empty(''anonymous-other'' \<mapsto> \<lparr>count = 1, resetTime = 40000\<rparr>,
                     ''anonymous-send'' \<mapsto> \<lparr>count = 5, resetTime = 40000\<rparr>))) = Inr False
   \<and> snd (isAllowed (messageRateLimiter json_rejects) Map.empty [JStr ''send''] 35000 35000
          (Map.empty(''anonymous-other'' \<mapsto> \<lparr>count = 1, resetTime = 40000\<rparr>,
                     ''anonymous-send'' \<mapsto> \<lparr>count = 5, resetTime = 40000\<rparr>))) ''anonymous-send''
       = Some \<lparr>count = 5, resetTime = 40000\<rparr>
   \<and> snd (isAllowed (messageRateLimiter json_rejects) Map.empty [JStr ''send''] 35000 35000
          (Map.empty(''anonymous-other'' \<mapsto> \<lparr>count = 1, resetTime = 40000\<rparr>,
                     ''anonymous-send'' \<mapsto> \<lparr>count = 5, resetTime = 40000\<rparr>))) ''anonymous-other''
       = Some \<lparr>count = 1, resetTime = 40000\<rparr>"
proof -
  let ?lims = "Map.empty(''anonymous-other'' \<mapsto> \<lparr>count = 1, resetTime = 40000\<rparr>,
                     ''anonymous-send'' \<mapsto> \<lparr>count = 5, resetTime = 40000\<rparr>)"
  let ?cfg = "messageRateLimiter json_rejects"
  have k: "getKey ?cfg Map.empty [JStr ''send''] = Inr ''anonymous-send''"
    by (simp add: getKey_def messageRateLimiter_def messageKeyGenerator_def js_first_def)
  have e: "?lims ''anonymous-send'' = Some \<lparr>count = 5, resetTime = 40000\<rparr>" by simp
  have o: "?lims ''anonymous-other'' = Some \<lparr>count = 1, resetTime = 40000\<rparr>" by simp
  have t: "(35000::int) \<le> resetTime \<lparr>count = 5, resetTime = 40000\<rparr>" by simp
  have m: "maxRequests ?cfg \<le> count \<lparr>count = 5, resetTime = 40000\<rparr>"
    by (simp add: messageRateLimiter_def)
  note frame = isAllowed_rejects_frame[where lims="?lims" and key="''anonymous-send''", OF k e t t m]
  have other: "snd (isAllowed ?cfg Map.empty [JStr ''send''] 35000 35000 ?lims) ''anonymous-other''
                 = Some \<lparr>count = 1, resetTime = 40000\<rparr>"
    using frame[THEN conjunct2, THEN conjunct2, THEN conjunct2, THEN conjunct1, rule_format,
                of "''anonymous-other''" "\<lparr>count = 1, resetTime = 40000\<rparr>"] o
    by simp
  show ?thesis using frame other by blast
qed

text \<open>
  The sweep of a rejected call, against claim C9 as stated: the message limiter holds an
  entry of \<open>anonymous-other\<close> that expired at 30000 and a full entry of \<open>anonymous-send\<close>
  that expires at 40000 (one call for the first key at time 0 and five for the second at
  time 10000 lead there); the call for \<open>anonymous-send\<close> at time 35000 is rejected and
  removes the entry of \<open>anonymous-other\<close>.
\<close>

theorem isAllowed_rejects_sweep_counterexample:
  "fst (isAllowed (messageRateLimiter json_rejects) Map.empty [JStr ''send''] 35000 35000
          (Map.empty(''anonymous-other'' \<mapsto> \<lparr>count = 1, resetTime = 30000\<rparr>,
                     ''anonymous-send'' \<mapsto> \<lparr>count = 5, resetTime = 40000\<rparr>))) = Inr False
   \<and> (Map.empty(''anonymous-other'' \<mapsto> \<lparr>count = 1, resetTime = 30000\<rparr>,
                  ''anonymous-send'' \<mapsto> \<lparr>count = 5, resetTime = 40000\<rparr>)) ''anonymous-other''
       = Some \<lparr>count = 1, resetTime = 30000\<rparr>
   \<and> snd (isAllowed (messageRateLimiter json_rejects) Map.empty [JStr ''send''] 35000 35000
          (Map.empty(''anonymous-other'' \<mapsto> \<lparr>count = 1, resetTime = 30000\<rparr>,
                     ''anonymous-send'' \<mapsto> \<lparr>count = 5, resetTime = 40000\<rparr>))) ''anonymous-other''
       = None"
  by (simp add: isAllowed_def cleanup_def getKey_def messageRateLimiter_def messageKeyGenerator_def
                js_first_def)

text \<open>
  Claim C3, as the code has it, for \<open>maxRequests = N \<ge> 1\<close>. A call for \<open>key\<close> at time
  \<open>t0\<close>, made when \<open>key\<close> has no unexpired entry, opens a window that lasts through
  \<open>t0 + windowMs\<close>. Of the calls made inside the window the first \<open>N\<close> for \<open>key\<close> are all
  admitted; once \<open>N\<close> calls for \<open>key\<close> have been made, a further call inside the window
  returns false; and a call for \<open>key\<close> made later than \<open>t0 + windowMs\<close> returns true and
  replaces the entry by one with count 1.
\<close>

theorem isAllowed_window_cycle:
  assumes "1 \<le> maxRequests config"
    and "getKey config (c_env c0) (c_args c0) = Inr key"
    and "case lims key of None \<Rightarrow> True
         | Some e \<Rightarrow> resetTime e < c_sweep c0 \<or> resetTime e < c_now c0"
    and "\<forall>c \<in> set cs. c_sweep c \<le> c_now c0 + windowMs config
                             \<and> c_now c \<le> c_now c0 + windowMs config"
    and "isAllowed_calls config lims (c0 # cs) = (rs, lims1)"
    and "getKey config env args = Inr key"
  shows "(int (key_calls config key (c0 # cs)) \<le> maxRequests config \<longrightarrow>
            admitted config key (c0 # cs) rs = key_calls config key (c0 # cs))
       \<and> (maxRequests config \<le> int (key_calls config key (c0 # cs))
            \<and> sweep \<le> c_now c0 + windowMs config \<and> now \<le> c_now c0 + windowMs config \<longrightarrow>
            fst (isAllowed config env args sweep now lims1) = Inr False)
       \<and> (c_now c0 + windowMs config < now \<longrightarrow>
            isAllowed config env args sweep now lims1 =
              (Inr True,
               (cleanup sweep lims1)(key \<mapsto> \<lparr>count = 1, resetTime = now + windowMs config\<rparr>)))"
proof -
  let ?n = "maxRequests config" and ?w = "windowMs config"
  let ?e = "\<lparr>count = 1, resetTime = c_now c0 + ?w\<rparr>"
  let ?l = "(cleanup (c_sweep c0) lims)(key \<mapsto> ?e)"
  have opens: "case lims key of None \<Rightarrow> True
               | Some e \<Rightarrow> c_sweep c0 > resetTime e \<or> c_now c0 > resetTime e"
    using assms(3) by (simp split: option.splits)
  have first: "isAllowed config (c_env c0) (c_args c0) (c_sweep c0) (c_now c0) lims = (Inr True, ?l)"
    using assms(2) opens by (rule isAllowed_opens)
  obtain rs1 where rest: "isAllowed_calls config ?l cs = (rs1, lims1)" and rs: "rs = Inr True # rs1"
    using assms(5) first by (cases "isAllowed_calls config ?l cs") auto
  have lk: "?l key = Some ?e" by simp
  have tl: "\<forall>c \<in> set cs. c_sweep c \<le> resetTime ?e \<and> c_now c \<le> resetTime ?e"
    using assms(4) by simp
  have le: "count ?e \<le> ?n" using assms(1) by simp
  obtain e' where e': "lims1 key = Some e'" "resetTime e' = c_now c0 + ?w"
    "count e' = min ?n (1 + int (key_calls config key cs))"
    "int (admitted config key cs rs1) = count e' - 1"
    using window_run[where lims="?l" and key=key, OF lk tl rest le] by auto
  have kc: "key_calls config key (c0 # cs) = Suc (key_calls config key cs)"
    using assms(2) by simp
  have ad: "admitted config key (c0 # cs) rs = Suc (admitted config key cs rs1)"
    using assms(2) rs by simp
  have all: "int (key_calls config key (c0 # cs)) \<le> ?n \<longrightarrow>
            admitted config key (c0 # cs) rs = key_calls config key (c0 # cs)"
    using e'(3,4) kc ad by auto
  have full: "maxRequests config \<le> int (key_calls config key (c0 # cs))
            \<and> sweep \<le> c_now c0 + ?w \<and> now \<le> c_now c0 + ?w \<longrightarrow>
            fst (isAllowed config env args sweep now lims1) = Inr False"
  proof
    assume a: "maxRequests config \<le> int (key_calls config key (c0 # cs))
            \<and> sweep \<le> c_now c0 + ?w \<and> now \<le> c_now c0 + ?w"
    then have c: "?n \<le> count e'" using e'(3) kc by simp
    have "isAllowed config env args sweep now lims1 =
           (if count e' \<ge> ?n then (Inr False, cleanup sweep lims1)
            else (Inr True, (cleanup sweep lims1)(key \<mapsto> e'\<lparr>count := count e' + 1\<rparr>)))"
      using a e'(2) by (intro isAllowed_active[where lims=lims1 and key=key, OF assms(6) e'(1)]) simp_all
    then show "fst (isAllowed config env args sweep now lims1) = Inr False" using c by simp
  qed
  have reset: "c_now c0 + ?w < now \<longrightarrow>
            isAllowed config env args sweep now lims1 =
              (Inr True, (cleanup sweep lims1)(key \<mapsto> \<lparr>count = 1, resetTime = now + ?w\<rparr>))"
  proof
    assume "c_now c0 + ?w < now"
    then have "case lims1 key of None \<Rightarrow> True
               | Some e \<Rightarrow> sweep > resetTime e \<or> now > resetTime e"
      using e'(1,2) by simp
    with assms(6) show "isAllowed config env args sweep now lims1 =
              (Inr True, (cleanup sweep lims1)(key \<mapsto> \<lparr>count = 1, resetTime = now + ?w\<rparr>))"
      by (rule isAllowed_opens)
  qed
  show ?thesis using all full reset by blast
qed

theorem isAllowed_window_cycle_witness:
  "admitted \<lparr>maxRequests = 2, windowMs = 10, keyGenerator = None\<rparr> ''default''
      [\<lparr>c_env = (), c_args = [] :: unit list, c_sweep = 0, c_now = 0\<rparr>,
       \<lparr>c_env = (), c_args = [], c_sweep = 3, c_now = 4\<rparr>]
      (fst (isAllowed_calls \<lparr>maxRequests = 2, windowMs = 10, keyGenerator = None\<rparr> Map.empty
         [\<lparr>c_env = (), c_args = [] :: unit list, c_sweep = 0, c_now = 0\<rparr>,
          \<lparr>c_env = (), c_args = [], c_sweep = 3, c_now = 4\<rparr>])) = 2
   \<and> fst (isAllowed \<lparr>maxRequests = 2, windowMs = 10, keyGenerator = None\<rparr> () ([] :: unit list) 10 10
        (snd (isAllowed_calls \<lparr>maxRequests = 2, windowMs = 10, keyGenerator = None\<rparr> Map.empty
         [\<lparr>c_env = (), c_args = [] :: unit list, c_sweep = 0, c_now = 0\<rparr>,
          \<lparr>c_env = (), c_args = [], c_sweep = 3, c_now = 4\<rparr>]))) = Inr False
   \<and> fst (isAllowed \<lparr>maxRequests = 2, windowMs = 10, keyGenerator = None\<rparr> () ([] :: unit list) 11 11
        (snd (isAllowed_calls \<lparr>maxRequests = 2, windowMs = 10, keyGenerator = None\<rparr> Map.empty
         [\<lparr>c_env = (), c_args = [] :: unit list, c_sweep = 0, c_now = 0\<rparr>,
          \<lparr>c_env = (), c_args = [], c_sweep = 3, c_now = 4\<rparr>]))) = Inr True"
proof -
  let ?cfg = "\<lparr>maxRequests = 2, windowMs = 10, keyGenerator = None\<rparr> :: (unit, unit) RateLimitConfig"
  let ?c0 = "\<lparr>c_env = (), c_args = [] :: unit list, c_sweep = 0, c_now = 0\<rparr>"
  let ?cs = "[\<lparr>c_env = (), c_args = [] :: unit list, c_sweep = 3, c_now = 4\<rparr>]"
  let ?run = "isAllowed_calls ?cfg Map.empty (?c0 # ?cs)"
  have h1: "1 \<le> maxRequests ?cfg" by simp
  have h2: "getKey ?cfg (c_env ?c0) (c_args ?c0) = Inr ''default''" by (simp add: getKey_def)
  have h3: "case (Map.empty :: limits) ''default'' of None \<Rightarrow> True
            | Some e \<Rightarrow> resetTime e < c_sweep ?c0 \<or> resetTime e < c_now ?c0" by simp
  have h4: "\<forall>c \<in> set ?cs. c_sweep c \<le> c_now ?c0 + windowMs ?cfg
                              \<and> c_now c \<le> c_now ?c0 + windowMs ?cfg" by simp
  have h5: "?run = (fst ?run, snd ?run)" by simp
  have h6: "getKey ?cfg () ([] :: unit list) = Inr ''default''" by (simp add: getKey_def)
  have kc: "key_calls ?cfg ''default'' (?c0 # ?cs) = 2" by (simp add: getKey_def)
  note cycle = isAllowed_window_cycle[OF h1 h2 h3 h4 h5 h6]
  have a: "admitted ?cfg ''default'' (?c0 # ?cs) (fst ?run) = 2"
    using cycle[THEN conjunct1] kc by simp
  have b: "fst (isAllowed ?cfg () ([] :: unit list) 10 10 (snd ?run)) = Inr False"
    using cycle[where sweep=10 and now=10, THEN conjunct2, THEN conjunct1] kc by simp
  have c: "fst (isAllowed ?cfg () ([] :: unit list) 11 11 (snd ?run)) = Inr True"
    using cycle[where sweep=11 and now=11, THEN conjunct2, THEN conjunct2] by simp
  show ?thesis using a b c by blast
qed

text \<open>
  The boundary of claim C3: five calls for one key at time 0 on the message limiter
  (\<open>maxRequests\<close> 5, \<open>windowMs\<close> 30000) and a sixth at time 30000, which has waited at
  least \<open>windowMs\<close> from the first call. The sixth call returns false.
\<close>

theorem isAllowed_window_boundary_counterexample:
  "fst (isAllowed_calls (messageRateLimiter json_rejects) Map.empty
     [\<lparr>c_env = Map.empty, c_args = [JStr ''send''], c_sweep = 0, c_now = 0\<rparr>,
      \<lparr>c_env = Map.empty, c_args = [JStr ''send''], c_sweep = 0, c_now = 0\<rparr>,
      \<lparr>c_env = Map.empty, c_args = [JStr ''send''], c_sweep = 0, c_now = 0\<rparr>,
      \<lparr>c_env = Map.empty, c_args = [JStr ''send''], c_sweep = 0, c_now = 0\<rparr>,
      \<lparr>c_env = Map.empty, c_args = [JStr ''send''], c_sweep = 0, c_now = 0\<rparr>,
      \<lparr>c_env = Map.empty, c_args = [JStr ''send''], c_sweep = 30000, c_now = 30000\<rparr>])
   = [Inr True, Inr True, Inr True, Inr True, Inr True, Inr False]"
  by (simp add: isAllowed_def cleanup_def getKey_def messageRateLimiter_def messageKeyGenerator_def
                js_first_def)

text \<open>
  Claim C1, as the code has it, for \<open>maxRequests = N \<ge> 1\<close>. After any run from the empty
  limiter, take calls made one after the other whose clock reads all lie in
  \<open>[s, s + windowMs]\<close>. If \<open>key\<close> has no entry when they begin, or one that expired before
  \<open>s\<close>, at most \<open>N\<close> of them are admitted for \<open>key\<close>; otherwise the entry may expire
  inside the interval and open a second window, and at most \<open>2 * N - 1\<close> are admitted.
\<close>

theorem isAllowed_window_bound:
  assumes "1 \<le> maxRequests config"
    and "isAllowed_calls config Map.empty before = (rs0, lims0)"
    and "isAllowed_calls config lims0 seg = (rs, lims1)"
    and "\<forall>c \<in> set seg. s \<le> c_now c \<and> c_now c \<le> s + windowMs config
                              \<and> c_sweep c \<le> s + windowMs config"
  shows "int (admitted config key seg rs) \<le>
           (case lims0 key of
              None \<Rightarrow> maxRequests config
            | Some e \<Rightarrow> if resetTime e < s then maxRequests config else 2 * maxRequests config - 1)"
proof -
  have "counts_positive Map.empty" by (simp add: counts_positive_def)
  then have "counts_positive lims0" using assms(2) by (rule isAllowed_calls_counts_positive)
  then have pos: "case lims0 key of None \<Rightarrow> True | Some e \<Rightarrow> 1 \<le> count e"
    by (auto simp: counts_positive_def split: option.splits)
  have "int (admitted config key seg rs)
          \<le> window_bound (maxRequests config) (windowMs config) s (lims0 key)"
    using assms(1,4,3) by (rule segment_bound)
  also have "\<dots> \<le> (case lims0 key of
              None \<Rightarrow> maxRequests config
            | Some e \<Rightarrow> if resetTime e < s then maxRequests config else 2 * maxRequests config - 1)"
    using assms(1) pos by (rule window_bound_reachable)
  finally show ?thesis .
qed

theorem isAllowed_window_bound_witness:
  "int (admitted \<lparr>maxRequests = 2, windowMs = 10, keyGenerator = None\<rparr> ''default''
      [\<lparr>c_env = (), c_args = [] :: unit list, c_sweep = 10, c_now = 10\<rparr>,
       \<lparr>c_env = (), c_args = [], c_sweep = 11, c_now = 11\<rparr>,
       \<lparr>c_env = (), c_args = [], c_sweep = 12, c_now = 12\<rparr>]
      (fst (isAllowed_calls \<lparr>maxRequests = 2, windowMs = 10, keyGenerator = None\<rparr>
         (snd (isAllowed_calls \<lparr>maxRequests = 2, windowMs = 10, keyGenerator = None\<rparr> Map.empty
            [\<lparr>c_env = (), c_args = [] :: unit list, c_sweep = 0, c_now = 0\<rparr>]))
         [\<lparr>c_env = (), c_args = [] :: unit list, c_sweep = 10, c_now = 10\<rparr>,
          \<lparr>c_env = (), c_args = [], c_sweep = 11, c_now = 11\<rparr>,
          \<lparr>c_env = (), c_args = [], c_sweep = 12, c_now = 12\<rparr>]))) \<le> 3"
proof -
  let ?cfg = "\<lparr>maxRequests = 2, windowMs = 10, keyGenerator = None\<rparr> :: (unit, unit) RateLimitConfig"
  let ?before = "[\<lparr>c_env = (), c_args = [] :: unit list, c_sweep = 0, c_now = 0\<rparr>]"
  let ?seg = "[\<lparr>c_env = (), c_args = [] :: unit list, c_sweep = 10, c_now = 10\<rparr>,
       \<lparr>c_env = (), c_args = [], c_sweep = 11, c_now = 11\<rparr>,
       \<lparr>c_env = (), c_args = [], c_sweep = 12, c_now = 12\<rparr>]"
  let ?pre = "isAllowed_calls ?cfg Map.empty ?before"
  let ?run = "isAllowed_calls ?cfg (snd ?pre) ?seg"
  have h1: "1 \<le> maxRequests ?cfg" by simp
  have h2: "?pre = (fst ?pre, snd ?pre)" by simp
  have h3: "?run = (fst ?run, snd ?run)" by simp
  have h4: "\<forall>c \<in> set ?seg. 10 \<le> c_now c \<and> c_now c \<le> 10 + windowMs ?cfg
                               \<and> c_sweep c \<le> 10 + windowMs ?cfg" by simp
  have e: "snd ?pre ''default'' = Some \<lparr>count = 1, resetTime = 10\<rparr>"
    by (simp add: isAllowed_def cleanup_def getKey_def)
  show ?thesis
    using isAllowed_window_bound[OF h1 h2 h3 h4, of "''default''"] unfolding e by simp
qed

text \<open>
  Against claim C1 as stated, on the message limiter (\<open>maxRequests\<close> 5, \<open>windowMs\<close> 30000):
  after one call at time 0, four calls at time 30000 and five at time 30001 are all
  admitted for the same key: 9 admissions within one millisecond.
\<close>

theorem isAllowed_sliding_window_counterexample:
  "int (admitted (messageRateLimiter json_rejects) ''anonymous-send''
     [\<lparr>c_env = Map.empty, c_args = [JStr ''send''], c_sweep = 30000, c_now = 30000\<rparr>,
      \<lparr>c_env = Map.empty, c_args = [JStr ''send''], c_sweep = 30000, c_now = 30000\<rparr>,
      \<lparr>c_env = Map.empty, c_args = [JStr ''send''], c_sweep = 30000, c_now = 30000\<rparr>,
      \<lparr>c_env = Map.empty, c_args = [JStr ''send''], c_sweep = 30000, c_now = 30000\<rparr>,
      \<lparr>c_env = Map.empty, c_args = [JStr ''send''], c_sweep = 30001, c_now = 30001\<rparr>,
      \<lparr>c_env = Map.empty, c_args = [JStr ''send''], c_sweep = 30001, c_now = 30001\<rparr>,
      \<lparr>c_env = Map.empty, c_args = [JStr ''send''], c_sweep = 30001, c_now = 30001\<rparr>,
      \<lparr>c_env = Map.empty, c_args = [JStr ''send''], c_sweep = 30001, c_now = 30001\<rparr>,
      \<lparr>c_env = Map.empty, c_args = [JStr ''send''], c_sweep = 30001, c_now = 30001\<rparr>]
     (fst (isAllowed_calls (messageRateLimiter json_rejects)
        (snd (isAllowed_calls (messageRateLimiter json_rejects) Map.empty
           [\<lparr>c_env = Map.empty, c_args = [JStr ''send''], c_sweep = 0, c_now = 0\<rparr>]))
        [\<lparr>c_env = Map.empty, c_args = [JStr ''send''], c_sweep = 30000, c_now = 30000\<rparr>,
         \<lparr>c_env = Map.empty, c_args = [JStr ''send''], c_sweep = 30000, c_now = 30000\<rparr>,
         \<lparr>c_env = Map.empty, c_args = [JStr ''send''], c_sweep = 30000, c_now = 30000\<rparr>,
         \<lparr>c_env = Map.empty, c_args = [JStr ''send''], c_sweep = 30000, c_now = 30000\<rparr>,
         \<lparr>c_env = Map.empty, c_args = [JStr ''send''], c_sweep = 30001, c_now = 30001\<rparr>,
         \<lparr>c_env = Map.empty, c_args = [JStr ''send''], c_sweep = 30001, c_now = 30001\<rparr>,
         \<lparr>c_env = Map.empty, c_args = [JStr ''send''], c_sweep = 30001, c_now = 30001\<rparr>,
         \<lparr>c_env = Map.empty, c_args = [JStr ''send''], c_sweep = 30001, c_now = 30001\<rparr>,
         \<lparr>c_env = Map.empty, c_args = [JStr ''send''], c_sweep = 30001, c_now = 30001\<rparr>]))) = 9
   \<and> maxRequests (messageRateLimiter json_rejects) = 5
   \<and> windowMs (messageRateLimiter json_rejects) = 30000"
  by (simp add: isAllowed_def cleanup_def getKey_def messageRateLimiter_def messageKeyGenerator_def
                js_first_def)

subsection \<open>The key of a single-message send\<close>

text \<open>
  Claim C4 on the code. The message limiter admits 5 calls per 30000 milliseconds, and
  the user part of its key is \<open>anonymous\<close> when no user is stored. The second part of
  the key is the string form of the first argument of the wrapped call, and
  \<open>sendSingleDocument\<close> passes the request object there: the key of every send ends in
  \<open>-[object Object]\<close>, whatever the request.
\<close>

theorem sendSingleDocument_limiter_key:
  "maxRequests (messageRateLimiter json_parse) = 5
   \<and> windowMs (messageRateLimiter json_parse) = 30000
   \<and> getKey (messageRateLimiter json_parse) Map.empty [JObj req] = Inr ''anonymous-[object Object]''
   \<and> (case getKey (messageRateLimiter json_parse) store [JObj req] of
         Inl e \<Rightarrow> True
       | Inr key \<Rightarrow> \<exists>userId. key = userId @ ''-[object Object]'')
   \<and> snd (sendSingleDocument json_parse post random Map.empty (JObj req) t t t Map.empty)
         ''anonymous-[object Object]'' = Some \<lparr>count = 1, resetTime = t + 30000\<rparr>"
proof -
  have a: "getKey (messageRateLimiter json_parse) Map.empty [JObj req] = Inr ''anonymous-[object Object]''"
    by (simp add: getKey_def messageRateLimiter_def messageKeyGenerator_def js_first_def)
  have b: "case getKey (messageRateLimiter json_parse) store [JObj req] of
         Inl e \<Rightarrow> True
       | Inr key \<Rightarrow> \<exists>userId. key = userId @ ''-[object Object]''"
    by (auto simp: getKey_def messageRateLimiter_def messageKeyGenerator_def js_first_def
             split: option.splits sum.splits)
  have "isAllowed (messageRateLimiter json_parse) Map.empty [JObj req] t t Map.empty =
          (Inr True, (cleanup t Map.empty)(''anonymous-[object Object]'' \<mapsto>
                        \<lparr>count = 1, resetTime = t + windowMs (messageRateLimiter json_parse)\<rparr>))"
    using a by (simp add: isAllowed_def cleanup_def)
  then have c: "snd (sendSingleDocument json_parse post random Map.empty (JObj req) t t t Map.empty)
         ''anonymous-[object Object]'' = Some \<lparr>count = 1, resetTime = t + 30000\<rparr>"
    by (simp add: sendSingleDocument_def withRateLimit_def messageRateLimiter_def)
  show ?thesis using a b c by (simp add: messageRateLimiter_def)
qed

end
